theory Spec2Isabelle
  imports Main "HOL-Library.Word"
begin

section \<open>Chunked large-file upload of go-onedrive (onedrive/driveitems.go)\<close>

text \<open>
  The theory embeds \<^verbatim>\<open>UploadLargeFile\<close> and \<^verbatim>\<open>uploadChunk\<close> of
  \<^verbatim>\<open>onedrive/driveitems.go\<close>. Go's \<^verbatim>\<open>uint64\<close> is \<open>64 word\<close>, a
  \<^verbatim>\<open>[]byte\<close> and a \<^verbatim>\<open>string\<close> are \<open>string\<close> (a list of bytes), a nil-able
  pointer or interface is an \<open>option\<close>, a Go \<^verbatim>\<open>error\<close> is a value of the
  datatype \<open>error\<close>, and a run-time panic is a value of \<open>panic\<close>. Everything
  outside the package (the HTTP transport, the JSON decoder, URL parsing, the
  \<^verbatim>\<open>io.ReaderAt\<close> of the file) is a parameter: a field of the record \<open>env\<close> or
  of the file. The theorems are stated for every transport, decoder and reader; the
  runs on concrete inputs use the stand-ins defined further down. The context
  \<^verbatim>\<open>ctx\<close> is taken to be non-nil; its cancellation reaches the code as an error of
  the transport.
\<close>

subsection \<open>Data\<close>

type_synonym uint64 = "64 word"

text \<open>The two failures of \<^verbatim>\<open>strconv.ParseUint\<close>.\<close>

datatype num_err = ErrSyntax | ErrRange

text \<open>\<^verbatim>\<open>InnerError\<close>, \<^verbatim>\<open>Error\<close> and \<^verbatim>\<open>ErrorResponse\<close> (error.go).\<close>

record InnerError =
  Date :: string
  RequestId :: string
  ClientRequestId :: string

record Error =
  Code :: string
  Message :: string
  LocalizedMessage :: string
  Inner :: "InnerError option"

record ErrorResponse =
  Error :: "Error option"

text \<open>
  Go error values: \<^verbatim>\<open>errors.New\<close> and \<^verbatim>\<open>fmt.Errorf\<close> give an
  \<open>ErrorString\<close>, \<open>EOF\<close> is the sentinel \<^verbatim>\<open>io.EOF\<close>, \<open>NumError\<close> is
  \<^verbatim>\<open>*strconv.NumError\<close> (function name, input, cause), \<open>ApiError\<close> is the
  package's \<^verbatim>\<open>*Error\<close>, and \<open>Foreign\<close> is any error made outside the package
  (transport, JSON decoder, URL parser, reader), kept by its text.
\<close>

datatype error =
    ErrorString string
  | EOF
  | NumError string string num_err
  | ApiError Error
  | Foreign string

text \<open>\<^verbatim>\<open>func (e *Error) Error() string\<close>.\<close>

definition Error_Error :: "Error \<Rightarrow> string" where
  "Error_Error e =
     (case Inner e of
        Some ie \<Rightarrow> Code e @ '' - '' @ Message e @ '' ('' @ Date ie @ '')''
      | None \<Rightarrow> Code e @ '' - '' @ Message e)"

text \<open>Run-time panics of the Go runtime that the upload path can raise.\<close>

datatype panic =
    IndexOutOfRange nat nat
  | SliceBoundsOutOfRange nat nat
  | MakeSliceLenOutOfRange
  | NilDereference

text \<open>
  \<^verbatim>\<open>DriveItem\<close>: the scalar fields and the file and folder facets. The media
  facets (audio, video, image, photo) are filled by the JSON decoder only and read
  nowhere in the upload path; they are left out.
\<close>

record DriveItemFile =
  MIMEType :: string

record DriveItemFolder =
  ChildCount :: "32 word"

record DriveItem =
  item_Name :: string
  item_Id :: string
  DownloadURL :: string
  Description :: string
  WebURL :: string
  File :: "DriveItemFile option"
  Folder :: "DriveItemFolder option"

text \<open>\<^verbatim>\<open>UploadSession\<close>; the expiration time is kept as its wire text.\<close>

record UploadSession =
  ODataContext :: string
  ExpirationDateTime :: string
  NextExpectedRanges :: "string list"
  UploadUrl :: string

text \<open>
  \<^verbatim>\<open>io.ReaderAt\<close>: \<^verbatim>\<open>ReadAt(p, off)\<close> is given \<^verbatim>\<open>len(p)\<close> and the
  \<^verbatim>\<open>int64\<close> offset and returns the bytes it wrote to the front of \<^verbatim>\<open>p\<close>
  (their number is Go's \<^verbatim>\<open>n\<close>) and its error.
\<close>

type_synonym ReaderAt = "nat \<Rightarrow> int \<Rightarrow> string \<times> error option"

record LargeFile =
  Name :: string
  Size :: uint64
  Data :: "ReaderAt option"

record UploadLargeFileOpts =
  DriveID :: string
  ConflictBehavior :: string
  ChunkSize :: uint64

text \<open>
  \<^verbatim>\<open>http.Request\<close> and \<^verbatim>\<open>http.Response\<close>, as far as the upload path
  touches them. \<open>resp_Body\<close> is what \<^verbatim>\<open>ioutil.ReadAll(resp.Body)\<close> returns.
\<close>

record Request =
  Method :: string
  URL :: string
  Header :: "string \<rightharpoonup> string list"
  Body :: string

record Response =
  StatusCode :: int
  Status :: string
  resp_Body :: "error + string"

text \<open>
  The collaborators. The transport functions get the list of requests issued so
  far, so a server may answer by the whole history. \<open>ClientDo\<close> is
  \<^verbatim>\<open>s.client.Do(ctx, req, false, &session)\<close> (send, decode into the target or
  into an error) and \<open>processHTTPError\<close> the helper of that name; both belong to
  the package's client file, which is not part of the source given here.
  \<open>maxAlloc\<close> is the largest byte slice \<^verbatim>\<open>make\<close> allocates before it panics.
  \<open>maxDepth\<close> is the number of activations of \<^verbatim>\<open>uploadChunk\<close> that the
  goroutine stack has room for: the function calls itself, with a deferred call pending
  in every activation, and the Go runtime ends the process with a fatal stack overflow
  when the stack is exhausted.
\<close>

record env =
  Do :: "Request list \<Rightarrow> Request \<Rightarrow> error + Response"
  ClientDo :: "Request list \<Rightarrow> Request \<Rightarrow> error + UploadSession"
  processHTTPError :: "error \<Rightarrow> error"
  BaseURL_Parse :: "string \<Rightarrow> error + string"
  url_Parse :: "string \<Rightarrow> error option"
  PathEscape :: "string \<Rightarrow> string"
  Unmarshal_DriveItem :: "string \<Rightarrow> error + DriveItem"
  Unmarshal_UploadSession :: "string \<Rightarrow> error + UploadSession"
  Unmarshal_ErrorResponse :: "string \<Rightarrow> error + ErrorResponse option"
  maxAlloc :: nat
  maxDepth :: nat

text \<open>
  What a call leaves behind: it returns Go's pair \<^verbatim>\<open>(*DriveItem, error)\<close>, each
  of which may be nil, or it panics.
\<close>

datatype outcome =
    Return "DriveItem option" "error option"
  | Panic panic

subsection \<open>Library functions\<close>

text \<open>\<^verbatim>\<open>strings.Split(s, sep)\<close> for a one-byte separator.\<close>

fun Split :: "string \<Rightarrow> char \<Rightarrow> string list" where
  "Split [] sep = [[]]"
| "Split (c # cs) sep =
     (if c = sep then [] # Split cs sep
      else (case Split cs sep of
              [] \<Rightarrow> [[c]]
            | f # fs \<Rightarrow> (c # f) # fs))"

text \<open>Indexing a slice: out of range is a panic.\<close>

definition index :: "'a list \<Rightarrow> nat \<Rightarrow> panic + 'a" where
  "index xs i = (if i < length xs then Inr (xs ! i) else Inl (IndexOutOfRange i (length xs)))"

text \<open>
  \<^verbatim>\<open>strconv.ParseUint(s, 10, 64)\<close>: the loop over the bytes of \<open>s\<close>, with the
  running value \<open>n\<close>; a byte that is no decimal digit is a syntax error, a value
  beyond \<open>2^64 - 1\<close> a range error, whichever the loop meets first.
\<close>

fun ParseUint_loop :: "string \<Rightarrow> nat \<Rightarrow> num_err + nat" where
  "ParseUint_loop [] n = Inr n"
| "ParseUint_loop (c # cs) n =
     (if \<not> (48 \<le> (of_char c :: nat) \<and> (of_char c :: nat) \<le> 57) then Inl ErrSyntax
      else if n \<ge> (2 ^ 64 - 1) div 10 + 1 then Inl ErrRange
      else if n * 10 + (of_char c - 48) > 2 ^ 64 - 1 then Inl ErrRange
      else ParseUint_loop cs (n * 10 + (of_char c - 48)))"

definition ParseUint :: "string \<Rightarrow> error + uint64" where
  "ParseUint s =
     (if s = [] then Inl (NumError ''ParseUint'' s ErrSyntax)
      else (case ParseUint_loop s 0 of
              Inl e \<Rightarrow> Inl (NumError ''ParseUint'' s e)
            | Inr n \<Rightarrow> Inr (word_of_nat n)))"

text \<open>
  Decimal text of a number: \<^verbatim>\<open>strconv.Itoa\<close> and \<^verbatim>\<open>%d\<close> on values
  \<open>\<ge> 0\<close>, digit by digit from the digit table.
\<close>

fun Itoa :: "nat \<Rightarrow> string" where
  "Itoa n =
     (if n < 10 then [''0123456789'' ! n]
      else Itoa (n div 10) @ [''0123456789'' ! (n mod 10)])"

declare Itoa.simps [simp del]

text \<open>\<^verbatim>\<open>http.NewRequest\<close>: fails when the URL does not parse.\<close>

definition NewRequest :: "env \<Rightarrow> string \<Rightarrow> string \<Rightarrow> string \<Rightarrow> error + Request" where
  "NewRequest s method url body =
     (case url_Parse s url of
        Some err \<Rightarrow> Inl err
      | None \<Rightarrow> Inr \<lparr>Method = method, URL = url, Header = Map.empty, Body = body\<rparr>)"

text \<open>\<^verbatim>\<open>req.Header.Set(key, value)\<close>.\<close>

definition Header_Set :: "Request \<Rightarrow> string \<Rightarrow> string \<Rightarrow> Request" where
  "Header_Set req key v = req\<lparr>Header := (Header req)(key \<mapsto> [v])\<rparr>"

text \<open>
  A byte slice: the bytes of its array from the start of the slice to its capacity, and
  its length. The bytes of the slice itself are the first \<open>len\<close> of them.
  \<^verbatim>\<open>make([]byte, n)\<close> gives \<open>n\<close> zero bytes and panics beyond \<open>maxAlloc\<close>;
  \<^verbatim>\<open>b[:n]\<close> keeps the array, sets the length and panics beyond the capacity.
\<close>

record buffer =
  arr :: string
  len :: nat

definition cap :: "buffer \<Rightarrow> nat" where
  "cap b = length (arr b)"

definition bytes :: "buffer \<Rightarrow> string" where
  "bytes b = take (len b) (arr b)"

definition zeroed :: "nat \<Rightarrow> buffer" where
  "zeroed n = \<lparr>arr = replicate n (CHR 0x00), len = n\<rparr>"

definition make :: "env \<Rightarrow> uint64 \<Rightarrow> panic + buffer" where
  "make s n =
     (if unat n > maxAlloc s then Inl MakeSliceLenOutOfRange
      else Inr (zeroed (unat n)))"

definition reslice :: "buffer \<Rightarrow> nat \<Rightarrow> panic + buffer" where
  "reslice b n = (if n \<le> cap b then Inr (b\<lparr>len := n\<rparr>) else Inl (SliceBoundsOutOfRange n (cap b)))"

text \<open>
  What \<^verbatim>\<open>ReadAt(b, off)\<close> leaves in \<open>b\<close> when it produced the bytes \<open>p\<close>: they
  stand at the front of the slice, which has room for \<open>len b\<close> of them; the rest of the
  array keeps what it held.
\<close>

definition fill :: "buffer \<Rightarrow> string \<Rightarrow> buffer" where
  "fill b p = b\<lparr>arr := take (len b) p @ drop (min (len b) (length p)) (arr b)\<rparr>"

subsection \<open>One activation of \<^verbatim>\<open>uploadChunk\<close>\<close>

text \<open>
  Lines 718 to 721: a buffer shorter than \<open>length'\<close> is replaced by a new one, and
  the buffer is cut to \<open>length'\<close>.
\<close>

definition sizeBuffer :: "env \<Rightarrow> buffer \<Rightarrow> uint64 \<Rightarrow> panic + buffer" where
  "sizeBuffer s buffer length' =
     (case (if len buffer < unat length' then make s length' else Inr buffer) of
        Inl pn \<Rightarrow> Inl pn
      | Inr buffer1 \<Rightarrow> reslice buffer1 (unat length'))"

text \<open>
  Lines 718 to 734: size the buffer, read into it at \<open>offset\<close>, and give up when
  nothing was read; otherwise cut the buffer to the \<open>n\<close> bytes read
  (\<^verbatim>\<open>buffer = buffer[:n]\<close>). The result is the outcome of an early exit, or the
  buffer after the cut together with its bytes, which are what
  \<^verbatim>\<open>bytes.NewReader(buffer)\<close> will send; there are \<open>n\<close> of them.
\<close>

definition readChunk ::
  "env \<Rightarrow> buffer \<Rightarrow> uint64 \<Rightarrow> uint64 \<Rightarrow> LargeFile \<Rightarrow> outcome + (buffer \<times> string)" where
  "readChunk s buffer offset length' file =
     (case sizeBuffer s buffer length' of
        Inl pn \<Rightarrow> Inl (Panic pn)
      | Inr buffer2 \<Rightarrow>
     (case Data file of
        None \<Rightarrow> Inl (Panic NilDereference)
      | Some ReadAt \<Rightarrow>
     (case ReadAt (len buffer2) (sint offset) of
        (p, err) \<Rightarrow>
          if length p = 0 then
            (if err = Some EOF then Inl (Return None (Some (ErrorString ''unexpected EOF'')))
             else Inl (Return None err))
          else
            (case reslice (fill buffer2 p) (length p) of
               Inl pn \<Rightarrow> Inl (Panic pn)
             | Inr buffer3 \<Rightarrow> Inr (buffer3, bytes buffer3)))))"

text \<open>
  Lines 735 to 746: the PUT request for the bytes \<open>p\<close> read at \<open>offset\<close>, with
  its \<^verbatim>\<open>Content-Length\<close> and \<^verbatim>\<open>Content-Range\<close> headers. The range end is
  computed in \<^verbatim>\<open>uint64\<close>, as \<^verbatim>\<open>offset-1+uint64(n)\<close>.
\<close>

definition chunkRequest ::
  "env \<Rightarrow> string \<Rightarrow> string \<Rightarrow> uint64 \<Rightarrow> LargeFile \<Rightarrow> error + Request" where
  "chunkRequest s sessURL p offset file =
     (case NewRequest s ''PUT'' sessURL p of
        Inl err \<Rightarrow> Inl err
      | Inr uploadReq \<Rightarrow>
          Inr (Header_Set
                 (Header_Set uploadReq ''Content-Length'' (Itoa (length p)))
                 ''Content-Range''
                 (''bytes '' @ Itoa (unat offset) @ ''-''
                    @ Itoa (unat (offset - 1 + word_of_nat (length p))) @ ''/''
                    @ Itoa (unat (Size file)))))"

text \<open>
  Lines 769 to 790, the case 202: decode the session and take the next offset and
  length from its first range. The result is the outcome of an early exit or the pair
  \<open>(nextOffset, nextLength)\<close> of the recursive call.
\<close>

definition nextChunk :: "env \<Rightarrow> string \<Rightarrow> uint64 \<Rightarrow> outcome + (uint64 \<times> uint64)" where
  "nextChunk s responseBody length' =
     (case Unmarshal_UploadSession s responseBody of
        Inl err \<Rightarrow> Inl (Return None (Some err))
      | Inr session \<Rightarrow>
          if length (NextExpectedRanges session) < 1 then
            Inl (Return None (Some (ErrorString
              ''next expected ranges is empty, but we didn't receive DriveItem obejct in response'')))
          else
            (let sp = Split (NextExpectedRanges session ! 0) (CHR ''-'') in
             case index sp 0 of
               Inl pn \<Rightarrow> Inl (Panic pn)
             | Inr start \<Rightarrow>
            (case index sp 1 of
               Inl pn \<Rightarrow> Inl (Panic pn)
             | Inr end' \<Rightarrow>
            (case ParseUint start of
               Inl err \<Rightarrow> Inl (Return None (Some err))
             | Inr nextOffset \<Rightarrow>
                 if end' \<noteq> [] then
                   (case ParseUint end' of
                      Inl err \<Rightarrow> Inl (Return None (Some err))
                    | Inr nextLength \<Rightarrow> Inr (nextOffset, nextLength))
                 else Inr (nextOffset, length')))))"

text \<open>Lines 757 to 803: the switch on the status code.\<close>

definition respond ::
  "env \<Rightarrow> Response \<Rightarrow> string \<Rightarrow> uint64 \<Rightarrow> outcome + (uint64 \<times> uint64)" where
  "respond s resp responseBody length' =
     (if StatusCode resp = 200 \<or> StatusCode resp = 201 then
        (case Unmarshal_DriveItem s responseBody of
           Inl err \<Rightarrow> Inl (Return None (Some err))
         | Inr item \<Rightarrow> Inl (Return (Some item) None))
      else if StatusCode resp = 202 then nextChunk s responseBody length'
      else
        (case Unmarshal_ErrorResponse s responseBody of
           Inl err \<Rightarrow> Inl (Return None (Some err))
         | Inr None \<Rightarrow> Inl (Panic NilDereference)
         | Inr (Some oneDriveError) \<Rightarrow>
             (case Error oneDriveError of
                None \<Rightarrow> Inl (Return None (Some (ErrorString (Status resp @ '': '' @ responseBody))))
              | Some e \<Rightarrow> Inl (Return None (Some (ApiError e))))))"

text \<open>
  The body of \<^verbatim>\<open>uploadChunk\<close> up to its tail call. \<open>sent\<close> is the list of
  requests handed to the transport so far; the step returns it extended by the PUT it
  issued, and either the outcome of the call or the arguments of the tail call.
\<close>

definition chunkStep ::
  "env \<Rightarrow> Request list \<Rightarrow> string \<Rightarrow> buffer \<Rightarrow> uint64 \<Rightarrow> uint64 \<Rightarrow> LargeFile
     \<Rightarrow> (outcome + (buffer \<times> uint64 \<times> uint64)) \<times> Request list" where
  "chunkStep s sent sessURL buffer offset length' file =
     (case readChunk s buffer offset length' file of
        Inl out \<Rightarrow> (Inl out, sent)
      | Inr (buffer', p) \<Rightarrow>
     (case chunkRequest s sessURL p offset file of
        Inl err \<Rightarrow> (Inl (Return None (Some err)), sent)
      | Inr uploadReq \<Rightarrow>
     (case Do s sent uploadReq of
        Inl err \<Rightarrow> (Inl (Return None (Some (processHTTPError s err))), sent @ [uploadReq])
      | Inr resp \<Rightarrow>
     (case resp_Body resp of
        Inl err \<Rightarrow> (Inl (Return None (Some err)), sent @ [uploadReq])
      | Inr responseBody \<Rightarrow>
     (case respond s resp responseBody length' of
        Inl out \<Rightarrow> (Inl out, sent @ [uploadReq])
      | Inr (nextOffset, nextLength) \<Rightarrow>
          (Inr (buffer', nextOffset, nextLength), sent @ [uploadReq]))))))"

subsection \<open>The upload loop and the upload operation\<close>

text \<open>
  \<^verbatim>\<open>uploadChunk\<close> calls itself for as long as the server answers 202. The call is
  no tail call (the deferred \<^verbatim>\<open>resp.Body.Close()\<close> is pending), so every chunk
  adds an activation to the stack. \<open>depth\<close> is the number of activations of
  \<^verbatim>\<open>uploadChunk\<close> below the one that runs; when the stack has no room for one more,
  the call ends the process with a fatal stack overflow: nothing is returned and no
  deferred function runs, which is the value \<open>None\<close>.
\<close>

function uploadChunk ::
  "env \<Rightarrow> nat \<Rightarrow> Request list \<Rightarrow> string \<Rightarrow> buffer \<Rightarrow> uint64 \<Rightarrow> uint64 \<Rightarrow> LargeFile
     \<Rightarrow> (outcome \<times> Request list) option" where
  "uploadChunk s depth sent sessURL buffer offset length' file =
     (case chunkStep s sent sessURL buffer offset length' file of
        (Inl out, sent') \<Rightarrow> Some (out, sent')
      | (Inr (buffer', nextOffset, nextLength), sent') \<Rightarrow>
          if maxDepth s \<le> Suc depth then None
          else uploadChunk s (Suc depth) sent' sessURL buffer' nextOffset nextLength file)"
  by pat_completeness auto
termination
  by (relation "measure (\<lambda>(s, depth, sent, sessURL, buffer, offset, length', file).
                   maxDepth s - depth)") auto

declare uploadChunk.simps [simp del]

text \<open>
  Lines 689 to 701, the deferred function: a DELETE to the session URL whose three
  failures all end in a bare return. It leaves nothing but the request it issued.
\<close>

definition cancelSession :: "env \<Rightarrow> Request list \<Rightarrow> UploadSession \<Rightarrow> Request list" where
  "cancelSession s sent session =
     (case NewRequest s ''DELETE'' (UploadUrl session) [] of
        Inl err \<Rightarrow> sent
      | Inr req \<Rightarrow>
          (case Do s sent req of
             Inl err \<Rightarrow> sent @ [req]
           | Inr resp \<Rightarrow> if StatusCode resp \<noteq> 204 then sent @ [req] else sent @ [req]))"

text \<open>Lines 665 to 671: the URL of the session request.\<close>

definition sessionURL :: "env \<Rightarrow> string \<Rightarrow> LargeFile \<Rightarrow> UploadLargeFileOpts \<Rightarrow> string" where
  "sessionURL s destinationParentFolderId file opts =
     (let apiURL1 = ''me/drive/items/'' @ PathEscape s destinationParentFolderId @ '':/''
                      @ PathEscape s (Name file) @ '':/createUploadSession'';
          apiURL2 = (if DriveID opts \<noteq> [] then
                       ''me/drives/'' @ PathEscape s (DriveID opts) @ ''/items/''
                         @ PathEscape s destinationParentFolderId @ '':/''
                         @ PathEscape s (Name file) @ '':/createUploadSession''
                     else apiURL1)
      in if ConflictBehavior opts \<noteq> [] then
           apiURL2 @ ''?@microsoft.graph.conflictBehavior='' @ ConflictBehavior opts
         else apiURL2)"

text \<open>Lines 703 to 708: the chunk size, the first buffer and the first chunk.\<close>

definition startUpload ::
  "env \<Rightarrow> Request list \<Rightarrow> UploadSession \<Rightarrow> LargeFile \<Rightarrow> UploadLargeFileOpts
     \<Rightarrow> (outcome \<times> Request list) option" where
  "startUpload s sent session file opts =
     (let chunkSize = (if ChunkSize opts \<noteq> 0 then ChunkSize opts else 4 * 1024 * 1024) in
      case make s chunkSize of
        Inl pn \<Rightarrow> Some (Panic pn, sent)
      | Inr buffer \<Rightarrow> uploadChunk s 0 sent (UploadUrl session) buffer 0 chunkSize file)"

text \<open>
  \<^verbatim>\<open>UploadLargeFile\<close>. The deferred cancellation runs when the function returns
  and when it panics, after the result is fixed; a run of \<^verbatim>\<open>uploadChunk\<close> that
  ends the process never reaches it.
\<close>

definition UploadLargeFile ::
  "env \<Rightarrow> Request list \<Rightarrow> string \<Rightarrow> LargeFile \<Rightarrow> UploadLargeFileOpts
     \<Rightarrow> (outcome \<times> Request list) option" where
  "UploadLargeFile s sent destinationParentFolderId file opts =
     (if destinationParentFolderId = [] then
        Some (Return None (Some (ErrorString
          ''Please provide the destination, i.e. the ID of the parent folder for this new item.'')), sent)
      else if Name file = [] then
        Some (Return None (Some (ErrorString ''Please provide the file name.'')), sent)
      else if Size file = 0 then
        Some (Return None (Some (ErrorString ''Please provide the file size.'')), sent)
      else if Data file = None then
        Some (Return None (Some (ErrorString ''Please provide the file reader.'')), sent)
      else
        (case BaseURL_Parse s (sessionURL s destinationParentFolderId file opts) of
           Inl err \<Rightarrow> Some (Return None (Some err), sent)
         | Inr apiUrl \<Rightarrow>
        (case NewRequest s ''POST'' apiUrl [] of
           Inl err \<Rightarrow> Some (Return None (Some err), sent)
         | Inr req0 \<Rightarrow>
        (let req = Header_Set req0 ''Content-Type'' ''application/json'' in
         case ClientDo s sent req of
           Inl err \<Rightarrow> Some (Return None (Some err), sent @ [req])
         | Inr session \<Rightarrow>
        (case startUpload s (sent @ [req]) session file opts of
           None \<Rightarrow> None
         | Some (out, sent') \<Rightarrow> Some (out, cancelSession s sent' session))))))"

subsection \<open>Stand-ins for the collaborators\<close>

text \<open>
  Concrete collaborators, used where a theorem is run on an input.
  \<open>bytesReader\<close> is \<^verbatim>\<open>bytes.Reader.ReadAt\<close> over the bytes \<open>data\<close>.
\<close>

definition bytesReader :: "string \<Rightarrow> ReaderAt" where
  "bytesReader data n off =
     (if off < 0 then ([], Some (ErrorString ''bytes.Reader.ReadAt: negative offset''))
      else if off \<ge> int (length data) then ([], Some EOF)
      else (let p = take n (drop (nat off) data)
            in (p, if length p < n then Some EOF else None)))"

text \<open>A JSON decoder given by a table of the bodies it accepts; every other body is
  a syntax error.\<close>

definition tableUnmarshal :: "(string \<times> 'a) list \<Rightarrow> string \<Rightarrow> error + 'a" where
  "tableUnmarshal t body =
     (case map_of t body of
        Some v \<Rightarrow> Inr v
      | None \<Rightarrow> Inl (Foreign ''invalid character looking for beginning of value''))"

definition session_of :: "string list \<Rightarrow> UploadSession" where
  "session_of ranges =
     \<lparr>ODataContext = [], ExpirationDateTime = ''2020-01-01T00:00:00Z'',
      NextExpectedRanges = ranges, UploadUrl = ''https://up.example/session''\<rparr>"

definition item1 :: DriveItem where
  "item1 = \<lparr>item_Name = ''a.bin'', item_Id = ''1'', DownloadURL = [], Description = [],
            WebURL = [], File = Some \<lparr>MIMEType = ''application/octet-stream''\<rparr>, Folder = None\<rparr>"

definition error1 :: Error where
  "error1 = \<lparr>Code = ''invalidRange'', Message = ''bad range'', LocalizedMessage = [], Inner = None\<rparr>"

text \<open>
  The stand-in environment: the transport answers the \<open>k\<close>-th request by \<open>rs k\<close>,
  the decoders know the bodies below, a URL fails to parse when it is \<open>'':''\<close>.
\<close>

definition testEnv :: "(nat \<Rightarrow> error + Response) \<Rightarrow> env" where
  "testEnv rs =
     \<lparr>Do = (\<lambda>sent req. rs (length sent)),
      ClientDo = (\<lambda>sent req. Inr (session_of [])),
      processHTTPError = (\<lambda>err. err),
      BaseURL_Parse = (\<lambda>u. Inr (''https://graph.microsoft.com/v1.0/'' @ u)),
      url_Parse = (\<lambda>u. if u = '':'' then Some (Foreign ''missing protocol scheme'') else None),
      PathEscape = (\<lambda>u. u),
      Unmarshal_DriveItem = tableUnmarshal [(''{item1}'', item1)],
      Unmarshal_UploadSession =
        tableUnmarshal
          [(''{ranges:[]}'', session_of []),
           (''{ranges:[0-]}'', session_of [''0-'']),
           (''{ranges:[4-]}'', session_of [''4-'']),
           (''{ranges:[8-]}'', session_of [''8-'']),
           (''{ranges:[8]}'', session_of [''8'']),
           (''{ranges:[1048576-]}'', session_of [''1048576-'']),
           (''{ranges:[8388608-]}'', session_of [''8388608-'']),
           (''{ranges:[1048576-2097151]}'', session_of [''1048576-2097151''])],
      Unmarshal_ErrorResponse =
        tableUnmarshal
          [(''null'', None),
           (''{}'', Some \<lparr>Error = None\<rparr>),
           (''{error1}'', Some \<lparr>Error = Some error1\<rparr>)],
      maxAlloc = 2 ^ 48,
      maxDepth = 1000000\<rparr>"

text \<open>Two response sequences: the same answer every time, and a list of answers
  followed by a last answer repeated for ever.\<close>

definition always :: "'a \<Rightarrow> nat \<Rightarrow> 'a" where
  "always r k = r"

definition script :: "'a list \<Rightarrow> 'a \<Rightarrow> nat \<Rightarrow> 'a" where
  "script rs r k = (if k < length rs then rs ! k else r)"

definition response :: "int \<Rightarrow> string \<Rightarrow> string \<Rightarrow> error + Response" where
  "response code status body = Inr \<lparr>StatusCode = code, Status = status, resp_Body = Inr body\<rparr>"

definition file_of :: "string \<Rightarrow> LargeFile" where
  "file_of data = \<lparr>Name = ''a.bin'', Size = word_of_nat (length data), Data = Some (bytesReader data)\<rparr>"

text \<open>
  The response sequences of the runs below. \<open>serverA\<close> answers an upload of ten bytes
  in chunks of four that starts after the session request (its first entry is never
  asked for: the session request goes through \<open>ClientDo\<close>) and then breaks the
  connection; \<open>serverA'\<close> answers the same upload and then answers 500;
  \<open>serverB\<close> answers the same upload started on an empty history.
\<close>

definition serverA :: "nat \<Rightarrow> error + Response" where
  "serverA = script [Inl (Foreign ''unused''),
                     response 202 ''202 Accepted'' ''{ranges:[4-]}'',
                     response 202 ''202 Accepted'' ''{ranges:[8-]}'',
                     response 201 ''201 Created'' ''{item1}'']
                    (Inl (Foreign ''connection reset by peer''))"

definition serverA' :: "nat \<Rightarrow> error + Response" where
  "serverA' = script [Inl (Foreign ''unused''),
                      response 202 ''202 Accepted'' ''{ranges:[4-]}'',
                      response 202 ''202 Accepted'' ''{ranges:[8-]}'',
                      response 201 ''201 Created'' ''{item1}'']
                     (response 500 ''500 Internal Server Error'' ''{}'')"

definition serverB :: "nat \<Rightarrow> error + Response" where
  "serverB = script [response 202 ''202 Accepted'' ''{ranges:[4-]}'',
                     response 202 ''202 Accepted'' ''{ranges:[8-]}'']
                    (response 201 ''201 Created'' ''{item1}'')"

subsection \<open>The offset a transport answer asks for\<close>

text \<open>
  The offset of the next chunk that an answer of the transport leads to: defined exactly
  when the answer is a response with status 202 whose body can be read and decoded and
  whose first range gives \<open>uploadChunk\<close> the arguments of its tail call. The offset
  does not depend on the previous length (\<open>respond_offset\<close> below), so \<open>respond\<close>
  is asked with the length 0.
\<close>

definition nextOffsetOf :: "env \<Rightarrow> error + Response \<Rightarrow> uint64 option" where
  "nextOffsetOf s r =
     (case r of
        Inl err \<Rightarrow> None
      | Inr resp \<Rightarrow>
          (case resp_Body resp of
             Inl err \<Rightarrow> None
           | Inr responseBody \<Rightarrow>
               (case respond s resp responseBody 0 of
                  Inl out \<Rightarrow> None
                | Inr (nextOffset, nextLength) \<Rightarrow> Some nextOffset)))"

subsection \<open>Inputs of a run that ends in a drive item or an error\<close>

text \<open>The two outcomes that the operation is meant to have.\<close>

definition item_or_error :: "outcome \<Rightarrow> bool" where
  "item_or_error out =
     (case out of
        Return (Some item) None \<Rightarrow> True
      | Return None (Some err) \<Rightarrow> True
      | _ \<Rightarrow> False)"

text \<open>
  A finite source of \<open>D\<close> bytes: a reader that keeps the contract of
  \<^verbatim>\<open>io.ReaderAt\<close> (it produces at most \<^verbatim>\<open>len(p)\<close> bytes, and an error whenever
  it produces fewer) and has no bytes at a negative offset or from \<open>D\<close> on.
\<close>

definition finite_source :: "ReaderAt \<Rightarrow> nat \<Rightarrow> bool" where
  "finite_source ReadAt D \<longleftrightarrow>
     (\<forall>n off p err. ReadAt n off = (p, err) \<longrightarrow>
        length p \<le> n \<and> (length p < n \<longrightarrow> err \<noteq> None) \<and>
        (off < 0 \<or> int D \<le> off \<longrightarrow> p = []))"

text \<open>
  Answers of the server that the code takes without a run-time panic and without an
  unusable length: a decoded session that names a range names it as \<open>start-\<close> or
  \<open>start-end\<close>, with an \<open>end\<close> that is positive and within what \<^verbatim>\<open>make\<close>
  allocates; the body of an error response does not decode to the JSON \<open>null\<close>.
\<close>

definition well_formed_answers :: "env \<Rightarrow> (nat \<Rightarrow> error + Response) \<Rightarrow> bool" where
  "well_formed_answers s rs \<longleftrightarrow>
     (\<forall>k resp responseBody. rs k = Inr resp \<and> resp_Body resp = Inr responseBody \<longrightarrow>
        (\<forall>session e es. StatusCode resp = 202
             \<and> Unmarshal_UploadSession s responseBody = Inr session
             \<and> NextExpectedRanges session = e # es \<longrightarrow>
           CHR ''-'' \<in> set e \<and>
           (\<forall>v. ParseUint (Split e (CHR ''-'') ! 1) = Inr v \<longrightarrow> 0 < v \<and> unat v \<le> maxAlloc s)) \<and>
        (StatusCode resp \<noteq> 200 \<and> StatusCode resp \<noteq> 201 \<and> StatusCode resp \<noteq> 202 \<longrightarrow>
           Unmarshal_ErrorResponse s responseBody \<noteq> Inr None))"

section \<open>Properties\<close>

subsection \<open>Evaluation and helper lemmas\<close>

lemma Itoa_small: "n < 10 \<Longrightarrow> Itoa n = [''0123456789'' ! n]"
  by (subst Itoa.simps) simp

lemma Itoa_large: "10 \<le> n \<Longrightarrow> Itoa n = Itoa (n div 10) @ [''0123456789'' ! (n mod 10)]"
  by (subst Itoa.simps) simp

lemmas eval_defs = readChunk_def sizeBuffer_def make_def reslice_def zeroed_def cap_def fill_def
  bytes_def file_of_def bytesReader_def chunkRequest_def NewRequest_def Header_Set_def testEnv_def
  always_def script_def response_def tableUnmarshal_def session_of_def index_def ParseUint_def
  Itoa_small Itoa_large

lemma Split_length: "length (Split e c) = Suc (count_list e c)"
  by (induction e) (auto split: list.splits)

lemma count_list_pos: "0 < count_list e c \<longleftrightarrow> c \<in> set e"
  by (induction e) auto

lemma sizeBuffer_len: "sizeBuffer s buffer length' = Inr buffer2 \<Longrightarrow> len buffer2 = unat length' \<and> unat length' \<le> cap buffer2"
  by (auto simp: sizeBuffer_def reslice_def make_def zeroed_def cap_def split: if_splits sum.splits)

lemma fill_bytes:
  assumes "length p \<le> len b" and "len b \<le> cap b"
  shows "reslice (fill b p) (length p) = Inr ((fill b p)\<lparr>len := length p\<rparr>)"
    and "bytes ((fill b p)\<lparr>len := length p\<rparr>) = p"
    and "len ((fill b p)\<lparr>len := length p\<rparr>) \<le> cap ((fill b p)\<lparr>len := length p\<rparr>)"
  using assms by (simp_all add: reslice_def fill_def bytes_def cap_def min_def)

lemma readChunk_bytes:
  assumes "sizeBuffer s buffer length' = Inr buffer2"
    and "Data file = Some ReadAt"
    and "ReadAt (len buffer2) (sint offset) = (p, err)"
    and "0 < length p" and "length p \<le> unat length'"
  shows "readChunk s buffer offset length' file = Inr ((fill buffer2 p)\<lparr>len := length p\<rparr>, p)"
proof -
  from sizeBuffer_len [OF assms(1)] assms(5)
  have room: "length p \<le> len buffer2" "len buffer2 \<le> cap buffer2" by simp_all
  from assms(1-4) fill_bytes [OF room] show ?thesis
    by (simp add: readChunk_def)
qed

lemma chunkStep_sends:
  assumes "readChunk s buffer offset length' file = Inr (buffer', p)"
    and "chunkRequest s sessURL p offset file = Inr uploadReq"
  shows "snd (chunkStep s sent sessURL buffer offset length' file) = sent @ [uploadReq]"
  using assms by (simp add: chunkStep_def split: sum.splits prod.splits)

lemma chunkStep_log:
  "snd (chunkStep s sent sessURL buffer offset length' file) = sent \<or>
   (\<exists>req. snd (chunkStep s sent sessURL buffer offset length' file) = sent @ [req])"
  by (simp add: chunkStep_def split: sum.splits prod.splits)

lemma range_end: "1 \<le> n \<Longrightarrow> unat ((offset::uint64) - 1 + word_of_nat n) = (unat offset + n - 1) mod 2 ^ 64"
proof -
  assume n: "1 \<le> n"
  have "offset - 1 + word_of_nat n = word_of_nat (unat offset + n - 1)"
    using n by (simp add: of_nat_diff)
  then show ?thesis by (simp add: unat_of_nat)
qed

lemma uploadChunk_done:
  "chunkStep s sent sessURL buffer offset length' file = (Inl out, sent')
     \<Longrightarrow> uploadChunk s depth sent sessURL buffer offset length' file = Some (out, sent')"
  by (subst uploadChunk.simps) simp

lemma uploadChunk_continue:
  "chunkStep s sent sessURL buffer offset length' file = (Inr (buffer', nextOffset, nextLength), sent')
     \<Longrightarrow> uploadChunk s depth sent sessURL buffer offset length' file =
           (if maxDepth s \<le> Suc depth then None
            else uploadChunk s (Suc depth) sent' sessURL buffer' nextOffset nextLength file)"
  by (subst uploadChunk.simps) simp

lemma nextChunk_offset:
  "nextChunk s responseBody l = Inr (nextOffset, nextLength)
     \<Longrightarrow> \<exists>nextLength'. nextChunk s responseBody l' = Inr (nextOffset, nextLength')"
  by (auto simp: nextChunk_def Let_def split: sum.splits if_splits)

lemma respond_offset:
  "respond s resp responseBody l = Inr (nextOffset, nextLength)
     \<Longrightarrow> \<exists>nextLength'. respond s resp responseBody l' = Inr (nextOffset, nextLength')"
  by (auto simp: respond_def split: sum.splits if_splits option.splits dest: nextChunk_offset)

lemma chunkStep_continue_sent:
  assumes "chunkStep s sent sessURL buffer offset length' file = (Inr t, sent1)"
  shows "\<exists>req. sent1 = sent @ [req]"
  using assms by (auto simp: chunkStep_def split: sum.splits prod.splits)

lemma chunkStep_continues:
  assumes "chunkStep s sent sessURL buffer offset length' file = (Inr (buffer', nextOffset, nextLength), sent1)"
  shows "\<exists>req. sent1 = sent @ [req] \<and> nextOffsetOf s (Do s sent req) = Some nextOffset"
proof -
  from assms obtain p req resp responseBody where
    "sent1 = sent @ [req]" and "Do s sent req = Inr resp" and "resp_Body resp = Inr responseBody"
    and "respond s resp responseBody length' = Inr (nextOffset, nextLength)"
    by (auto simp: chunkStep_def split: sum.splits prod.splits)
  moreover from this obtain l2 where "respond s resp responseBody 0 = Inr (nextOffset, l2)"
    using respond_offset by blast
  ultimately show ?thesis by (auto simp: nextOffsetOf_def)
qed

lemma sint_nonneg_uint:
  fixes w :: "64 word"
  assumes "0 \<le> sint w"
  shows "sint w = uint w"
proof -
  have s: "sint w = signed_take_bit 63 (uint w)"
    by (simp add: sint_uint)
  have "uint w < 2 ^ 63"
  proof (rule ccontr)
    assume "\<not> uint w < 2 ^ 63"
    then have "2 ^ 63 \<le> uint w" by simp
    from signed_take_bit_int_less_eq [OF this]
    have "signed_take_bit 63 (uint w) \<le> uint w - 2 ^ 64" by simp
    moreover have "uint w < 2 ^ 64" using uint_lt2p [of w] by simp
    ultimately show False using assms s by simp
  qed
  moreover have "- (2 ^ 63) \<le> uint w"
    by (rule order_trans [of _ 0]) simp_all
  ultimately have "signed_take_bit 63 (uint w) = uint w"
    by (intro signed_take_bit_int_eq_self)
  with s show ?thesis by simp
qed

lemma sint_nonneg_unat: "0 \<le> sint (w :: 64 word) \<Longrightarrow> nat (sint w) = unat w"
  by (simp add: sint_nonneg_uint)

lemma take_length_take: "take (length (take n xs)) xs = take n xs"
  by (simp add: min_def)

lemma bytesReader_bytes:
  assumes "bytesReader data n (sint (offset :: uint64)) = (p, err)" and "p \<noteq> []"
  shows "p = take n (drop (unat offset) data) \<and> unat offset < length data"
proof -
  from assms have nonneg: "0 \<le> sint offset" and inside: "sint offset < int (length data)"
    by (auto simp: bytesReader_def split: if_splits)
  from assms nonneg inside have "p = take n (drop (nat (sint offset)) data)"
    by (auto simp: bytesReader_def Let_def split: if_splits)
  moreover from nonneg inside have "unat offset < length data"
    using sint_nonneg_unat [OF nonneg] by linarith
  ultimately show ?thesis using sint_nonneg_unat [OF nonneg] by simp
qed

lemma killed_when_repeating:
  assumes again: "\<And>sent buffer. len buffer \<le> cap buffer \<Longrightarrow>
      \<exists>buffer' sent'. chunkStep s sent sessURL buffer offset length' file
                         = (Inr (buffer', offset, length'), sent') \<and> len buffer' \<le> cap buffer'"
    and inv: "len buffer \<le> cap buffer"
  shows "uploadChunk s depth sent sessURL buffer offset length' file = None"
  using inv
proof (induction "maxDepth s - depth" arbitrary: depth sent buffer rule: less_induct)
  case less
  from again [OF less.prems] obtain buffer' sent' where
    st: "chunkStep s sent sessURL buffer offset length' file = (Inr (buffer', offset, length'), sent')"
    and b: "len buffer' \<le> cap buffer'" by blast
  show ?case
  proof (cases "maxDepth s \<le> Suc depth")
    case True
    with st show ?thesis by (simp add: uploadChunk_continue)
  next
    case False
    then have "maxDepth s - Suc depth < maxDepth s - depth" by simp
    from less.hyps [OF this b] False st show ?thesis
      by (simp add: uploadChunk_continue)
  qed
qed

text \<open>
  A run of \<open>uploadChunk\<close> that returns asks the transport only about histories shorter
  than the history it ends with: a transport that differs from \<open>Do s\<close> only on histories of
  at least that length gives the same run.
\<close>

lemma readChunk_Do [simp]: "readChunk (s\<lparr>Do := D\<rparr>) = readChunk s"
  by (intro ext) (simp add: readChunk_def sizeBuffer_def make_def)

lemma chunkRequest_Do [simp]: "chunkRequest (s\<lparr>Do := D\<rparr>) = chunkRequest s"
  by (intro ext) (simp add: chunkRequest_def NewRequest_def)

lemma respond_Do [simp]: "respond (s\<lparr>Do := D\<rparr>) = respond s"
  by (intro ext) (simp add: respond_def nextChunk_def)

lemma chunkStep_Do:
  assumes "snd (chunkStep s sent sessURL buffer offset length' file) \<noteq> sent \<longrightarrow> D sent = Do s sent"
  shows "chunkStep (s\<lparr>Do := D\<rparr>) sent sessURL buffer offset length' file
           = chunkStep s sent sessURL buffer offset length' file"
proof (cases "readChunk s buffer offset length' file")
  case (Inl out)
  then show ?thesis by (simp add: chunkStep_def)
next
  case (Inr bp)
  obtain buffer' p where bp: "bp = (buffer', p)" by (cases bp)
  show ?thesis
  proof (cases "chunkRequest s sessURL p offset file")
    case (Inl err)
    with Inr bp show ?thesis by (simp add: chunkStep_def)
  next
    case (Inr uploadReq)
    with \<open>readChunk s buffer offset length' file = Inr bp\<close> bp
    have "snd (chunkStep s sent sessURL buffer offset length' file) = sent @ [uploadReq]"
      by (simp add: chunkStep_sends)
    with assms have "D sent = Do s sent" by simp
    with Inr \<open>readChunk s buffer offset length' file = Inr bp\<close> bp show ?thesis
      by (simp add: chunkStep_def split: sum.splits)
  qed
qed

lemma uploadChunk_Do:
  assumes "uploadChunk s depth sent sessURL buffer offset length' file = Some y"
  shows "length sent \<le> length (snd y) \<and>
         (\<forall>D. (\<forall>h. length h < length (snd y) \<longrightarrow> D h = Do s h) \<longrightarrow>
              uploadChunk (s\<lparr>Do := D\<rparr>) depth sent sessURL buffer offset length' file = Some y)"
  using assms
proof (induction "maxDepth s - depth" arbitrary: depth sent buffer offset length' rule: less_induct)
  case less
  obtain r sent2 where step: "chunkStep s sent sessURL buffer offset length' file = (r, sent2)"
    by (cases "chunkStep s sent sessURL buffer offset length' file")
  from chunkStep_log [of s sent sessURL buffer offset length' "file"] step
  have grow: "sent2 = sent \<or> (\<exists>req. sent2 = sent @ [req])" by simp
  show ?case
  proof (cases r)
    case (Inl out)
    with less.prems step have y: "y = (out, sent2)" by (simp add: uploadChunk_done)
    have "uploadChunk (s\<lparr>Do := D\<rparr>) depth sent sessURL buffer offset length' file = Some y"
      if "\<forall>h. length h < length (snd y) \<longrightarrow> D h = Do s h" for D
    proof -
      from that y grow step
      have "snd (chunkStep s sent sessURL buffer offset length' file) \<noteq> sent \<longrightarrow> D sent = Do s sent"
        by auto
      then have "chunkStep (s\<lparr>Do := D\<rparr>) sent sessURL buffer offset length' file
                   = chunkStep s sent sessURL buffer offset length' file"
        by (rule chunkStep_Do)
      with step Inl y show ?thesis by (simp add: uploadChunk_done)
    qed
    with y grow show ?thesis by auto
  next
    case (Inr t)
    obtain buffer' nextOffset nextLength where t: "t = (buffer', nextOffset, nextLength)"
      by (cases t)
    from less.prems step Inr t have room: "\<not> maxDepth s \<le> Suc depth"
      and rec: "uploadChunk s (Suc depth) sent2 sessURL buffer' nextOffset nextLength file = Some y"
      by (simp_all add: uploadChunk_continue split: if_splits)
    from room have dec: "maxDepth s - Suc depth < maxDepth s - depth" by simp
    from less.hyps [OF dec rec] have mono: "length sent2 \<le> length (snd y)"
      and ih: "\<And>D. (\<forall>h. length h < length (snd y) \<longrightarrow> D h = Do s h) \<Longrightarrow>
               uploadChunk (s\<lparr>Do := D\<rparr>) (Suc depth) sent2 sessURL buffer' nextOffset nextLength file
                 = Some y"
      by simp_all
    from step Inr chunkStep_continue_sent [of s sent sessURL buffer offset length' "file" t sent2]
    obtain req where sent2: "sent2 = sent @ [req]" by blast
    have "uploadChunk (s\<lparr>Do := D\<rparr>) depth sent sessURL buffer offset length' file = Some y"
      if agree: "\<forall>h. length h < length (snd y) \<longrightarrow> D h = Do s h" for D
    proof -
      from agree mono sent2 have "D sent = Do s sent" by simp
      then have "chunkStep (s\<lparr>Do := D\<rparr>) sent sessURL buffer offset length' file
                   = chunkStep s sent sessURL buffer offset length' file"
        by (intro chunkStep_Do) simp
      with step Inr t room ih [OF agree] show ?thesis
        by (simp add: uploadChunk_continue)
    qed
    with mono sent2 show ?thesis by auto
  qed
qed

lemma sessionURL_Do: "sessionURL (s\<lparr>Do := D\<rparr>) d file opts = sessionURL s d file opts"
  by (simp add: sessionURL_def)

lemma startUpload_Do:
  assumes "startUpload s sent session file opts = Some (out, sent')"
    and "\<forall>h. length h < length sent' \<longrightarrow> D h = Do s h"
  shows "startUpload (s\<lparr>Do := D\<rparr>) sent session file opts = Some (out, sent')"
proof (cases "make s (if ChunkSize opts \<noteq> 0 then ChunkSize opts else 4 * 1024 * 1024)")
  case (Inl pn)
  with assms(1) show ?thesis by (simp add: startUpload_def make_def)
next
  case (Inr buffer)
  with assms(1) have "uploadChunk s 0 sent (UploadUrl session) buffer 0
      (if ChunkSize opts \<noteq> 0 then ChunkSize opts else 4 * 1024 * 1024) file = Some (out, sent')"
    by (simp add: startUpload_def)
  from uploadChunk_Do [OF this] assms(2) Inr show ?thesis
    by (simp add: startUpload_def make_def)
qed

text \<open>
  The example of three chunks: ten bytes in chunks of four, sent after a first request
  \<open>post\<close>. The server asks for offset 4, then for offset 8, then answers 201; the
  ranges sent are 0-3, 4-7 and 8-9, the last chunk being a short read.
\<close>

lemma three_chunks:
  "\<exists>sent'. uploadChunk (testEnv serverA) 0 [post] ''https://up.example/session''
        (zeroed 4) 0 4 (file_of ''0123456789'') = Some (Return (Some item1) None, sent')
      \<and> map Method sent' = [Method post, ''PUT'', ''PUT'', ''PUT'']
      \<and> map Body sent' = [Body post, ''0123'', ''4567'', ''89'']
      \<and> map (\<lambda>r. Header r ''Content-Range'') (tl sent')
           = [Some [''bytes 0-3/10''], Some [''bytes 4-7/10''], Some [''bytes 8-9/10'']]"
  apply (subst uploadChunk.simps)
  apply (simp add: chunkStep_def respond_def nextChunk_def serverA_def eval_defs)
  apply (subst uploadChunk.simps)
  apply (simp add: chunkStep_def respond_def nextChunk_def serverA_def eval_defs)
  apply (subst uploadChunk.simps)
  apply (simp add: chunkStep_def respond_def nextChunk_def serverA_def eval_defs)
  done

subsection \<open>Parsing the next expected range\<close>

text \<open>
  C1. On a 202 response whose first range is \<open>start-end\<close>, the claim asks for a next
  length of \<open>end - start + 1\<close>. The code assigns the parsed \<open>end\<close> itself to
  \<open>nextLength\<close>: with the range \<open>1048576-2097151\<close> after a chunk of 1048576 bytes
  the next call gets the length 2097151, not 1048576. (With the range
  \<open>1048576-\<close> the previous length is reused, as \<open>next_length_reused\<close> shows: that
  half of the claim holds.)
\<close>

theorem next_length_is_range_end:
  "nextChunk (testEnv (always (Inl EOF))) ''{ranges:[1048576-2097151]}'' 1048576
     = Inr (1048576, 2097151)"
  by (simp add: nextChunk_def eval_defs)

lemma next_length_reused:
  "nextChunk (testEnv (always (Inl EOF))) ''{ranges:[1048576-]}'' 1048576
     = Inr (1048576, 1048576)"
  by (simp add: nextChunk_def eval_defs)

text \<open>
  In general, for a first range that splits into \<open>start\<close>, \<open>end\<close> and possibly more:
  an empty \<open>end\<close> keeps the previous length, any other \<open>end\<close> is parsed and becomes
  the next length as it is.
\<close>

lemma nextChunk_pair:
  assumes "Unmarshal_UploadSession s responseBody = Inr session"
    and "NextExpectedRanges session = e # es"
    and "Split e (CHR ''-'') = start # end' # rest"
    and "ParseUint start = Inr nextOffset"
  shows "(end' = [] \<longrightarrow> nextChunk s responseBody length' = Inr (nextOffset, length')) \<and>
         (\<forall>v. end' \<noteq> [] \<and> ParseUint end' = Inr v \<longrightarrow>
              nextChunk s responseBody length' = Inr (nextOffset, v))"
  using assms by (simp add: nextChunk_def index_def)

text \<open>
  What the next call then does, on a file of 3145728 bytes sent in chunks of 1048576:
  asked for the bytes 1048576 to 2097151, the second PUT carries 2097151 bytes, the
  range 1048576-3145726.
\<close>

lemma overlong_chunk_sent:
  "\<exists>req. chunkStep (testEnv (script [response 202 ''202 Accepted'' ''{ranges:[1048576-2097151]}'']
                                     (response 201 ''201 Created'' ''{item1}'')))
             [] ''https://up.example/session'' (zeroed 1048576) 0 1048576
             (file_of (replicate 3145728 (CHR ''x'')))
           = (Inr (\<lparr>arr = replicate 1048576 (CHR ''x''), len = 1048576\<rparr>, 1048576, 2097151), [req]) \<and>
          snd (chunkStep (testEnv (script [response 202 ''202 Accepted'' ''{ranges:[1048576-2097151]}'']
                                     (response 201 ''201 Created'' ''{item1}'')))
             [req] ''https://up.example/session''
             \<lparr>arr = replicate 1048576 (CHR ''x''), len = 1048576\<rparr> 1048576 2097151
             (file_of (replicate 3145728 (CHR ''x''))))
           = [req, \<lparr>Method = ''PUT'', URL = ''https://up.example/session'',
                    Header = [''Content-Length'' \<mapsto> [''2097151''],
                              ''Content-Range'' \<mapsto> [''bytes 1048576-3145726/3145728'']],
                    Body = replicate 2097151 (CHR ''x'')\<rparr>]"
  by (simp add: chunkStep_def respond_def nextChunk_def eval_defs)

text \<open>
  C10. The code splits the first range at \<open>-\<close> and reads the fragments 0 and 1. For a
  decoded session whose first range is \<open>e\<close>: if \<open>e\<close> contains a \<open>-\<close>, fragment 1
  exists and the step does not panic; if \<open>e\<close> contains no \<open>-\<close>, the split has one
  fragment, the index 1 is out of range and the step ends in the panic "index out of
  range [1] with length 1". The witness runs both cases; \<open>panic_reached\<close> is a whole
  run of \<open>uploadChunk\<close> that ends in the panic.
\<close>

theorem split_second_fragment:
  assumes "Unmarshal_UploadSession s responseBody = Inr session"
    and "NextExpectedRanges session = e # es"
  shows "(CHR ''-'' \<in> set e \<longrightarrow>
            (\<exists>end'. index (Split e (CHR ''-'')) 1 = Inr end') \<and>
            (\<forall>pn. nextChunk s responseBody length' \<noteq> Inl (Panic pn))) \<and>
         (CHR ''-'' \<notin> set e \<longrightarrow>
            index (Split e (CHR ''-'')) 1 = Inl (IndexOutOfRange 1 1) \<and>
            nextChunk s responseBody length' = Inl (Panic (IndexOutOfRange 1 1)))"
proof -
  let ?sp = "Split e (CHR ''-'')"
  have len: "length ?sp = Suc (count_list e (CHR ''-''))" by (rule Split_length)
  have first: "index ?sp 0 = Inr (?sp ! 0)" by (simp add: index_def len)
  show ?thesis
  proof (cases "CHR ''-'' \<in> set e")
    case True
    then have "1 < length ?sp" using count_list_pos [of e "CHR ''-''"] len by simp
    then have second: "index ?sp 1 = Inr (?sp ! 1)" by (simp add: index_def)
    have "nextChunk s responseBody length' \<noteq> Inl (Panic pn)" for pn
      using assms first second
      by (simp add: nextChunk_def Let_def split: sum.splits)
    with True second show ?thesis by simp
  next
    case False
    then have "length ?sp = 1" using count_list_pos [of e "CHR ''-''"] len by simp
    then have second: "index ?sp 1 = Inl (IndexOutOfRange 1 1)" by (simp add: index_def)
    have "nextChunk s responseBody length' = Inl (Panic (IndexOutOfRange 1 1))"
      using assms first second by (simp add: nextChunk_def Let_def)
    with False second show ?thesis by simp
  qed
qed

theorem split_second_fragment_witness:
  "(\<exists>end'. index (Split ''8-'' (CHR ''-'')) 1 = Inr end') \<and>
   (\<forall>pn. nextChunk (testEnv (always (Inl EOF))) ''{ranges:[8-]}'' 4 \<noteq> Inl (Panic pn)) \<and>
   index (Split ''8'' (CHR ''-'')) 1 = Inl (IndexOutOfRange 1 1) \<and>
   nextChunk (testEnv (always (Inl EOF))) ''{ranges:[8]}'' 4 = Inl (Panic (IndexOutOfRange 1 1))"
proof -
  let ?s = "testEnv (always (Inl EOF))"
  have d1: "Unmarshal_UploadSession ?s ''{ranges:[8-]}'' = Inr (session_of [''8-''])"
    and d2: "Unmarshal_UploadSession ?s ''{ranges:[8]}'' = Inr (session_of [''8''])"
    by (simp_all add: eval_defs)
  have r1: "NextExpectedRanges (session_of [''8-'']) = ''8-'' # []"
    and r2: "NextExpectedRanges (session_of [''8'']) = ''8'' # []"
    by (simp_all add: session_of_def)
  from split_second_fragment [OF d1 r1, of 4] split_second_fragment [OF d2 r2, of 4]
  show ?thesis by simp
qed

lemma panic_reached:
  "map_option fst
     (uploadChunk (testEnv (always (response 202 ''202 Accepted'' ''{ranges:[8]}''))) 0 []
        ''https://up.example/session'' (zeroed 4) 0 4 (file_of ''0123456789''))
   = Some (Panic (IndexOutOfRange 1 1))"
  by (subst uploadChunk.simps) (simp add: chunkStep_def respond_def nextChunk_def eval_defs)

subsection \<open>The size of the file and the chunks\<close>

text \<open>
  C2, as the claim states it, fails: the pair taken from a range \<open>start-\<close> is the
  server's start and the previous length, compared with nothing. In the upload of
  10000000 bytes in chunks of 4194304 the answer \<open>8388608-\<close> to the second chunk
  gives the third chunk the offset 8388608 and the length 4194304, which end beyond the
  size of the file.
\<close>

theorem plan_exceeds_size:
  "fst (chunkStep (testEnv (always (response 202 ''202 Accepted'' ''{ranges:[8388608-]}'')))
          [] ''https://up.example/session'' (zeroed 4194304) 4194304 4194304
          (file_of (replicate 10000000 (CHR ''x''))))
     = Inr (\<lparr>arr = replicate 4194304 (CHR ''x''), len = 4194304\<rparr>, 8388608, 4194304) \<and>
   Size (file_of (replicate 10000000 (CHR ''x''))) = 10000000 \<and>
   \<not> (unat (8388608 :: uint64) + unat (4194304 :: uint64)
        \<le> unat (Size (file_of (replicate 10000000 (CHR ''x'')))))"
  by (simp add: chunkStep_def respond_def nextChunk_def eval_defs)

text \<open>
  C2, amended. The bound holds for what is sent, not for what is planned: when the data
  source holds exactly \<open>Size\<close> bytes, every PUT that a step at \<open>offset\<close> issues
  carries \<open>n\<close> bytes of the file from \<open>offset\<close> on, with \<open>1 \<le> n \<le> length'\<close>,
  \<open>offset + n \<le> Size\<close> and \<open>offset < Size\<close>. (A file of size zero never gets that
  far: see C8.)
\<close>

theorem sent_range_within_size:
  assumes "Data file = Some (bytesReader data)"
    and "length data = unat (Size file)"
    and "snd (chunkStep s sent sessURL buffer offset length' file) = sent @ [req]"
  shows "1 \<le> length (Body req) \<and> length (Body req) \<le> unat length' \<and>
         unat offset + length (Body req) \<le> unat (Size file) \<and>
         unat offset < unat (Size file) \<and>
         Body req = take (length (Body req)) (drop (unat offset) data)"
proof -
  from assms(3) obtain buffer' p where
    rd: "readChunk s buffer offset length' file = Inr (buffer', p)"
    and rq: "chunkRequest s sessURL p offset file = Inr req"
    by (auto simp: chunkStep_def split: sum.splits prod.splits)
  from rq have body: "Body req = p"
    by (auto simp: chunkRequest_def NewRequest_def Header_Set_def split: option.splits)
  from rd assms(1) obtain buffer2 p0 err where
    sz: "sizeBuffer s buffer length' = Inr buffer2"
    and read: "bytesReader data (len buffer2) (sint offset) = (p0, err)"
    and ne: "p0 \<noteq> []"
    and cut: "reslice (fill buffer2 p0) (length p0) = Inr buffer'"
    and sent: "p = bytes buffer'"
    by (auto simp: readChunk_def split: sum.splits prod.splits if_splits)
  from sizeBuffer_len [OF sz] have n: "len buffer2 = unat length'"
    and room: "len buffer2 \<le> cap buffer2" by simp_all
  from bytesReader_bytes [OF read ne] n have
    p0: "p0 = take (unat length') (drop (unat offset) data)" and off: "unat offset < length data"
    by simp_all
  from p0 n have "length p0 \<le> len buffer2" by simp
  from fill_bytes [OF this room] cut sent have "p = p0" by simp
  with p0 ne have p: "p = take (unat length') (drop (unat offset) data)" and ne: "p \<noteq> []"
    by simp_all
  from p have lp: "length p = min (unat length') (length data - unat offset)" by simp
  from ne have "1 \<le> length p" by (cases p) simp_all
  moreover from lp have "length p \<le> unat length'" by simp
  moreover from lp off assms(2) have "unat offset + length p \<le> unat (Size file)" by simp
  moreover from off assms(2) have "unat offset < unat (Size file)" by simp
  moreover have "p = take (length p) (drop (unat offset) data)"
    by (subst (1 2) p) (rule take_length_take [symmetric])
  ultimately show ?thesis using body by simp
qed

theorem sent_range_within_size_witness:
  "\<exists>req. snd (chunkStep (testEnv (always (Inl EOF))) [] ''https://up.example/session''
                 (zeroed 4) 8 4 (file_of ''0123456789'')) = [req] \<and>
          Body req = ''89'' \<and>
          unat (8 :: uint64) + length (Body req) \<le> unat (Size (file_of ''0123456789''))"
proof -
  let ?f = "file_of ''0123456789''"
  have dt: "Data ?f = Some (bytesReader ''0123456789'')"
    and sz: "length ''0123456789'' = unat (Size ?f)"
    by (simp_all add: file_of_def)
  obtain req where
    st: "snd (chunkStep (testEnv (always (Inl EOF))) [] ''https://up.example/session''
                 (zeroed 4) 8 4 ?f) = [] @ [req]"
    and bd: "Body req = ''89''"
    by (simp add: chunkStep_def eval_defs)
  from sent_range_within_size [OF dt sz st] st bd show ?thesis
    by simp
qed

subsection \<open>Responses with another status\<close>

text \<open>
  C3, as the claim states it, fails: a body that is no JSON at all does not "parse into
  the error shape", and the code then returns the decoder's own error, which carries
  neither the status line nor the body.
\<close>

theorem undecodable_body_loses_status:
  "map_option fst
     (uploadChunk (testEnv (always (response 502 ''502 Bad Gateway'' ''<html>''))) 0 []
        ''https://up.example/session'' (zeroed 4) 0 4 (file_of ''0123456789''))
     = Some (Return None (Some (Foreign ''invalid character looking for beginning of value''))) \<and>
   map_option fst
     (uploadChunk (testEnv (always (response 502 ''502 Bad Gateway'' ''<html>''))) 0 []
        ''https://up.example/session'' (zeroed 4) 0 4 (file_of ''0123456789''))
     \<noteq> Some (Return None (Some (ErrorString ''502 Bad Gateway: <html>'')))"
  by (subst uploadChunk.simps, subst (2) uploadChunk.simps)
    (simp add: chunkStep_def respond_def eval_defs)

text \<open>
  C3, amended. For a chunk response with a status other than 200, 201 and 202: if the
  decoder rejects the body, \<open>uploadChunk\<close> returns the decoder's error; if the body
  decodes to an object without an error member, it returns the error whose text is the
  status line, a colon and the raw body; if the body decodes to an object with an error
  member, it returns that decoded error. In each case the request log ends with the PUT
  of this chunk.
\<close>

theorem other_status_errors:
  assumes "readChunk s buffer offset length' file = Inr (buffer', p)"
    and "chunkRequest s sessURL p offset file = Inr uploadReq"
    and "Do s sent uploadReq = Inr resp"
    and "resp_Body resp = Inr responseBody"
    and "StatusCode resp \<noteq> 200" and "StatusCode resp \<noteq> 201" and "StatusCode resp \<noteq> 202"
  shows "(\<forall>err. Unmarshal_ErrorResponse s responseBody = Inl err \<longrightarrow>
            uploadChunk s depth sent sessURL buffer offset length' file =
              Some (Return None (Some err), sent @ [uploadReq])) \<and>
         (\<forall>oneDriveError. Unmarshal_ErrorResponse s responseBody = Inr (Some oneDriveError)
              \<and> Error oneDriveError = None \<longrightarrow>
            uploadChunk s depth sent sessURL buffer offset length' file =
              Some (Return None (Some (ErrorString (Status resp @ '': '' @ responseBody))),
                    sent @ [uploadReq])) \<and>
         (\<forall>oneDriveError e. Unmarshal_ErrorResponse s responseBody = Inr (Some oneDriveError)
              \<and> Error oneDriveError = Some e \<longrightarrow>
            uploadChunk s depth sent sessURL buffer offset length' file =
              Some (Return None (Some (ApiError e)), sent @ [uploadReq]))"
  by (subst uploadChunk.simps, simp add: chunkStep_def respond_def assms)+

theorem other_status_errors_witness:
  "uploadChunk (testEnv (always (response 500 ''500 Internal Server Error'' ''{}''))) 0 []
      ''https://up.example/session'' (zeroed 4) 0 4 (file_of ''0123456789'')
     = Some (Return None (Some (ErrorString ''500 Internal Server Error: {}'')),
             [\<lparr>Method = ''PUT'', URL = ''https://up.example/session'',
               Header = [''Content-Length'' \<mapsto> [''4''], ''Content-Range'' \<mapsto> [''bytes 0-3/10'']],
               Body = ''0123''\<rparr>]) \<and>
   uploadChunk (testEnv (always (response 400 ''400 Bad Request'' ''{error1}''))) 0 []
      ''https://up.example/session'' (zeroed 4) 0 4 (file_of ''0123456789'')
     = Some (Return None (Some (ApiError error1)),
             [\<lparr>Method = ''PUT'', URL = ''https://up.example/session'',
               Header = [''Content-Length'' \<mapsto> [''4''], ''Content-Range'' \<mapsto> [''bytes 0-3/10'']],
               Body = ''0123''\<rparr>]) \<and>
   uploadChunk (testEnv (always (response 502 ''502 Bad Gateway'' ''<html>''))) 0 []
      ''https://up.example/session'' (zeroed 4) 0 4 (file_of ''0123456789'')
     = Some (Return None (Some (Foreign ''invalid character looking for beginning of value'')),
             [\<lparr>Method = ''PUT'', URL = ''https://up.example/session'',
               Header = [''Content-Length'' \<mapsto> [''4''], ''Content-Range'' \<mapsto> [''bytes 0-3/10'']],
               Body = ''0123''\<rparr>])"
proof -
  let ?req = "\<lparr>Method = ''PUT'', URL = ''https://up.example/session'',
             Header = [''Content-Length'' \<mapsto> [''4''], ''Content-Range'' \<mapsto> [''bytes 0-3/10'']],
             Body = ''0123''\<rparr>"
  have rd: "readChunk (testEnv rs) (zeroed 4) 0 4 (file_of ''0123456789'')
              = Inr (\<lparr>arr = ''0123'', len = 4\<rparr>, ''0123'')" for rs
    by (simp add: eval_defs)
  have rq: "chunkRequest (testEnv rs) ''https://up.example/session'' ''0123'' 0 (file_of ''0123456789'')
              = Inr ?req" for rs
    by (simp add: eval_defs)
  have ans: "Do (testEnv (always (response c st b))) [] ?req
               = Inr \<lparr>StatusCode = c, Status = st, resp_Body = Inr b\<rparr>" for c st b
    by (simp add: eval_defs)
  have bd: "resp_Body \<lparr>StatusCode = c, Status = st, resp_Body = Inr b\<rparr> = Inr b" for c st b
    by simp
  have d1: "Unmarshal_ErrorResponse (testEnv rs) ''{}'' = Inr (Some \<lparr>Error = None\<rparr>)"
    and d2: "Unmarshal_ErrorResponse (testEnv rs) ''{error1}'' = Inr (Some \<lparr>Error = Some error1\<rparr>)"
    and d3: "Unmarshal_ErrorResponse (testEnv rs) ''<html>''
               = Inl (Foreign ''invalid character looking for beginning of value'')" for rs
    by (simp_all add: eval_defs)
  have a: "uploadChunk (testEnv (always (response 500 ''500 Internal Server Error'' ''{}''))) 0 []
      ''https://up.example/session'' (zeroed 4) 0 4 (file_of ''0123456789'')
     = Some (Return None (Some (ErrorString ''500 Internal Server Error: {}'')), [?req])"
    using other_status_errors [OF rd rq ans [of 500 "''500 Internal Server Error''" "''{}''"] bd] d1 by simp
  have b: "uploadChunk (testEnv (always (response 400 ''400 Bad Request'' ''{error1}''))) 0 []
      ''https://up.example/session'' (zeroed 4) 0 4 (file_of ''0123456789'')
     = Some (Return None (Some (ApiError error1)), [?req])"
    using other_status_errors [OF rd rq ans [of 400 "''400 Bad Request''" "''{error1}''"] bd] d2 by simp
  have c: "uploadChunk (testEnv (always (response 502 ''502 Bad Gateway'' ''<html>''))) 0 []
      ''https://up.example/session'' (zeroed 4) 0 4 (file_of ''0123456789'')
     = Some (Return None (Some (Foreign ''invalid character looking for beginning of value'')), [?req])"
    using other_status_errors [OF rd rq ans [of 502 "''502 Bad Gateway''" "''<html>''"] bd] d3 by simp
  from a b c show ?thesis by simp
qed

subsection \<open>Termination of the upload loop\<close>

text \<open>
  C4, as the claim states it, fails in its second half: the code has no guard against an
  offset that does not advance. A server that answers every chunk with 202 and the range
  \<open>0-\<close> makes \<open>uploadChunk\<close> send the same chunk again and again, one activation
  deeper each time, until the stack is exhausted and the process ends. No error is
  returned, and a protocol error least of all.
\<close>

theorem repeated_offset_loops:
  "uploadChunk (testEnv (always (response 202 ''202 Accepted'' ''{ranges:[0-]}''))) 0 []
      ''https://up.example/session'' (zeroed 4) 0 4 (file_of ''0123456789'') = None"
proof (rule killed_when_repeating)
  fix sent :: "Request list" and buffer :: buffer
  assume "len buffer \<le> cap buffer"
  then show "\<exists>buffer' sent'. chunkStep (testEnv (always (response 202 ''202 Accepted'' ''{ranges:[0-]}'')))
         sent ''https://up.example/session'' buffer 0 4 (file_of ''0123456789'')
                         = (Inr (buffer', 0, 4), sent') \<and> len buffer' \<le> cap buffer'"
    by (simp add: chunkStep_def respond_def nextChunk_def eval_defs)
qed (simp add: zeroed_def cap_def)

text \<open>
  The steps of a run whose inputs are a finite source and well-formed answers: a step
  that ends the call ends it with a drive item or an error; a step that goes on hands on
  a sound buffer and a positive length that can be allocated, and it has read a byte of
  the source at its offset.
\<close>

lemma nextChunk_well_formed:
  assumes dec: "Unmarshal_UploadSession s responseBody = Inr session"
    and ranges: "NextExpectedRanges session = e # es"
    and dash: "CHR ''-'' \<in> set e"
    and lens: "\<And>v. ParseUint (Split e (CHR ''-'') ! 1) = Inr v \<Longrightarrow> 0 < v \<and> unat v \<le> maxAlloc s"
    and len: "0 < length'" "unat length' \<le> maxAlloc s"
  shows "case nextChunk s responseBody length' of
           Inl out \<Rightarrow> item_or_error out
         | Inr (nextOffset, nextLength) \<Rightarrow> 0 < nextLength \<and> unat nextLength \<le> maxAlloc s"
proof -
  let ?sp = "Split e (CHR ''-'')"
  have "1 < length ?sp"
    using dash count_list_pos [of e "CHR ''-''"] Split_length [of e "CHR ''-''"] by simp
  then have i1: "index ?sp 1 = Inr (?sp ! 1)"
    by (simp add: index_def)
  have i0: "index ?sp 0 = Inr (?sp ! 0)"
    by (simp add: index_def Split_length)
  show ?thesis
    using dec ranges i0 i1 lens len
    by (auto simp: nextChunk_def Let_def item_or_error_def split: sum.splits)
qed

lemma respond_well_formed:
  assumes ans: "well_formed_answers s rs" and k: "rs k = Inr resp"
    and body: "resp_Body resp = Inr responseBody"
    and len: "0 < length'" "unat length' \<le> maxAlloc s"
  shows "case respond s resp responseBody length' of
           Inl out \<Rightarrow> item_or_error out
         | Inr (nextOffset, nextLength) \<Rightarrow> 0 < nextLength \<and> unat nextLength \<le> maxAlloc s"
proof -
  consider "StatusCode resp = 200 \<or> StatusCode resp = 201" | "StatusCode resp = 202"
    | "StatusCode resp \<noteq> 200 \<and> StatusCode resp \<noteq> 201 \<and> StatusCode resp \<noteq> 202"
    by blast
  then show ?thesis
  proof cases
    case 1
    then show ?thesis
      by (auto simp: respond_def item_or_error_def split: sum.splits)
  next
    case 2
    show ?thesis
    proof (cases "Unmarshal_UploadSession s responseBody")
      case (Inl err)
      with 2 show ?thesis by (simp add: respond_def nextChunk_def item_or_error_def)
    next
      case (Inr session)
      show ?thesis
      proof (cases "NextExpectedRanges session")
        case Nil
        with 2 Inr show ?thesis by (simp add: respond_def nextChunk_def item_or_error_def)
      next
        case (Cons e es)
        from ans k body 2 Inr Cons have
          w: "CHR ''-'' \<in> set e \<and>
           (\<forall>v. ParseUint (Split e (CHR ''-'') ! 1) = Inr v \<longrightarrow> 0 < v \<and> unat v \<le> maxAlloc s)"
          unfolding well_formed_answers_def by blast
        from w have dash: "CHR ''-'' \<in> set e"
          and lens: "\<And>v. ParseUint (Split e (CHR ''-'') ! 1) = Inr v \<Longrightarrow> 0 < v \<and> unat v \<le> maxAlloc s"
          by simp_all
        from nextChunk_well_formed [OF Inr Cons dash lens len] 2
        show ?thesis by (simp add: respond_def)
      qed
    qed
  next
    case 3
    with ans k body have "Unmarshal_ErrorResponse s responseBody \<noteq> Inr None"
      unfolding well_formed_answers_def by blast
    with 3 show ?thesis
      by (auto simp: respond_def item_or_error_def split: sum.splits option.splits)
  qed
qed

lemma readChunk_finite_source:
  assumes src: "Data file = Some ReadAt" "finite_source ReadAt D"
    and buf: "len buffer \<le> cap buffer" "0 < length'" "unat length' \<le> maxAlloc s"
  shows "case readChunk s buffer offset length' file of
           Inl out \<Rightarrow> item_or_error out
         | Inr (buffer', p) \<Rightarrow> len buffer' \<le> cap buffer' \<and> unat offset < D"
proof -
  have "\<exists>buffer2. sizeBuffer s buffer length' = Inr buffer2"
  proof (cases "len buffer < unat length'")
    case True
    with buf show ?thesis
      by (simp add: sizeBuffer_def make_def reslice_def zeroed_def cap_def)
  next
    case False
    with buf show ?thesis
      by (simp add: sizeBuffer_def reslice_def cap_def)
  qed
  then obtain buffer2 where sz: "sizeBuffer s buffer length' = Inr buffer2" ..
  from sizeBuffer_len [OF sz] have n: "len buffer2 = unat length'" and room: "len buffer2 \<le> cap buffer2"
    by simp_all
  obtain p err where rd: "ReadAt (len buffer2) (sint offset) = (p, err)"
    by (cases "ReadAt (len buffer2) (sint offset)")
  from src(2) rd have short: "length p \<le> len buffer2"
    and err: "length p < len buffer2 \<Longrightarrow> err \<noteq> None"
    and outside: "sint offset < 0 \<or> int D \<le> sint offset \<Longrightarrow> p = []"
    unfolding finite_source_def by blast+
  show ?thesis
  proof (cases "p = []")
    case True
    with err n buf(2) have "err \<noteq> None" by (simp add: unat_gt_0)
    with True sz src(1) rd show ?thesis
      by (auto simp: readChunk_def item_or_error_def)
  next
    case False
    with outside have "\<not> (sint offset < 0 \<or> int D \<le> sint offset)" by blast
    then have inside: "0 \<le> sint offset" "sint offset < int D" by simp_all
    with sint_nonneg_unat [of offset] have "unat offset < D" by linarith
    moreover from False have "0 < length p" by simp
    ultimately show ?thesis
      using sz src(1) rd fill_bytes [OF short room] False
      by (simp add: readChunk_def)
  qed
qed

lemma chunkStep_well_formed:
  assumes seq: "\<forall>sent req. Do s sent req = rs (length sent)"
    and src: "Data file = Some ReadAt" "finite_source ReadAt D"
    and ans: "well_formed_answers s rs"
    and buf: "len buffer \<le> cap buffer" "0 < length'" "unat length' \<le> maxAlloc s"
  shows "case chunkStep s sent sessURL buffer offset length' file of
           (Inl out, sent') \<Rightarrow> item_or_error out
         | (Inr (buffer', nextOffset, nextLength), sent') \<Rightarrow>
             len buffer' \<le> cap buffer' \<and> 0 < nextLength \<and> unat nextLength \<le> maxAlloc s
               \<and> unat offset < D"
proof (cases "readChunk s buffer offset length' file")
  case (Inl out)
  with readChunk_finite_source [OF src buf, of offset] show ?thesis
    by (simp add: chunkStep_def)
next
  case (Inr bp)
  obtain buffer' p where bp: "bp = (buffer', p)" by (cases bp)
  from readChunk_finite_source [OF src buf, of offset] Inr bp
  have b': "len buffer' \<le> cap buffer'" and off: "unat offset < D" by simp_all
  show ?thesis
  proof (cases "chunkRequest s sessURL p offset file")
    case (Inl err)
    with Inr bp show ?thesis by (simp add: chunkStep_def item_or_error_def)
  next
    case req: (Inr uploadReq)
    show ?thesis
    proof (cases "rs (length sent)")
      case (Inl err)
      with Inr bp req seq show ?thesis by (simp add: chunkStep_def item_or_error_def)
    next
      case resp: (Inr resp)
      show ?thesis
      proof (cases "resp_Body resp")
        case (Inl err)
        with Inr bp req seq resp show ?thesis by (simp add: chunkStep_def item_or_error_def)
      next
        case body: (Inr responseBody)
        from respond_well_formed [OF ans resp body buf(2,3)] Inr bp req seq resp body b' off
        show ?thesis by (auto simp: chunkStep_def split: sum.splits)
      qed
    qed
  qed
qed

text \<open>
  C4, amended. Let the data source be finite, of \<open>D\<close> bytes, and let the transport
  answer the \<open>k\<close>-th request by \<open>rs k\<close>, with well-formed answers. If every answer
  that asks for a next chunk asks for an offset at least \<open>c\<close> beyond the one asked for
  by the answer before it (and the answer to the first chunk for one at least \<open>c\<close>
  beyond the first offset), and if the stack has room for the activations it takes to
  get from \<open>offset\<close> to \<open>D\<close> in steps of \<open>c\<close>, then \<open>uploadChunk\<close> returns, and
  it returns a drive item or an error. (With \<open>c = 1\<close> the offsets strictly advance, as
  in the claim; a server that asks for the byte after the chunk it received advances by
  the chunk size.) The run ends because a chunk is sent only when a byte was read at its
  offset, which must then lie below \<open>D\<close>.
\<close>

theorem upload_returns_when_offsets_advance:
  assumes seq: "\<forall>sent req. Do s sent req = rs (length sent)"
    and first: "\<forall>nextOffset. nextOffsetOf s (rs (length sent)) = Some nextOffset
                  \<longrightarrow> unat offset + c \<le> unat nextOffset"
    and adv: "\<forall>k nextOffset nextOffset'. nextOffsetOf s (rs k) = Some nextOffset
                \<longrightarrow> nextOffsetOf s (rs (Suc k)) = Some nextOffset'
                \<longrightarrow> unat nextOffset + c \<le> unat nextOffset'"
    and src: "Data file = Some ReadAt" "finite_source ReadAt D"
    and ans: "well_formed_answers s rs"
    and buf: "len buffer \<le> cap buffer" "0 < length'" "unat length' \<le> maxAlloc s"
    and stack: "D \<le> unat offset + c * (maxDepth s - Suc depth)"
  shows "\<exists>out sent'. uploadChunk s depth sent sessURL buffer offset length' file = Some (out, sent')
                      \<and> item_or_error out"
  using first buf stack
proof (induction "maxDepth s - depth" arbitrary: depth sent buffer offset length' rule: less_induct)
  case less
  obtain r sent1 where step: "chunkStep s sent sessURL buffer offset length' file = (r, sent1)"
    by (cases "chunkStep s sent sessURL buffer offset length' file")
  note wf = chunkStep_well_formed
    [OF seq src ans less.prems(2,3,4), where sent = sent and sessURL = sessURL and offset = offset]
  show ?case
  proof (cases r)
    case (Inl out)
    with step wf show ?thesis by (simp add: uploadChunk_done)
  next
    case (Inr t)
    obtain buffer' nextOffset nextLength where t: "t = (buffer', nextOffset, nextLength)"
      by (cases t)
    from wf step Inr t have b': "len buffer' \<le> cap buffer'"
      and l': "0 < nextLength" "unat nextLength \<le> maxAlloc s" and off: "unat offset < D"
      by simp_all
    from chunkStep_continues [OF step [unfolded Inr t]] obtain req where
      sent1: "sent1 = sent @ [req]" and nxt: "nextOffsetOf s (Do s sent req) = Some nextOffset"
      by blast
    from nxt seq have here: "nextOffsetOf s (rs (length sent)) = Some nextOffset" by simp
    with less.prems(1) have adv1: "unat offset + c \<le> unat nextOffset" by blast
    have room: "\<not> maxDepth s \<le> Suc depth"
    proof
      assume "maxDepth s \<le> Suc depth"
      then have "maxDepth s - Suc depth = 0" by simp
      with less.prems(5) off show False by simp
    qed
    then have dec: "maxDepth s - Suc depth < maxDepth s - depth" by simp
    have nxt': "\<forall>o'. nextOffsetOf s (rs (length sent1)) = Some o' \<longrightarrow> unat nextOffset + c \<le> unat o'"
      using adv here sent1 by auto
    from room obtain m where m: "maxDepth s - Suc depth = Suc m" "maxDepth s - Suc (Suc depth) = m"
      by (cases "maxDepth s - Suc depth") auto
    have "D \<le> unat offset + c + c * m" using less.prems(5) m by simp
    with adv1 have stack': "D \<le> unat nextOffset + c * (maxDepth s - Suc (Suc depth))"
      using m by simp
    from less.hyps [OF dec nxt' b' l' stack'] obtain out sent' where
      "uploadChunk s (Suc depth) sent1 sessURL buffer' nextOffset nextLength file = Some (out, sent')"
      and "item_or_error out"
      by blast
    with step Inr t room show ?thesis by (simp add: uploadChunk_continue)
  qed
qed

lemma bytesReader_finite_source: "finite_source (bytesReader data) (length data)"
  by (auto simp: finite_source_def bytesReader_def Let_def split: if_splits)

theorem upload_returns_when_offsets_advance_witness:
  "\<exists>out sent'. uploadChunk (testEnv serverB) 0 [] ''https://up.example/session''
                  (zeroed 4) 0 4 (file_of ''0123456789'') = Some (out, sent')
                \<and> item_or_error out"
proof -
  let ?s = "testEnv serverB"
  have seq: "\<forall>sent req. Do ?s sent req = serverB (length sent)"
    by (simp add: testEnv_def)
  have offs: "nextOffsetOf ?s (serverB k)
                = (if k = 0 then Some 4 else if k = 1 then Some 8 else None)" for k
  proof -
    consider "k = 0" | "k = 1" | "2 \<le> k" by arith
    then show ?thesis
      by cases (simp_all add: nextOffsetOf_def serverB_def respond_def nextChunk_def eval_defs)
  qed
  have first: "\<forall>nextOffset. nextOffsetOf ?s (serverB (length ([] :: Request list))) = Some nextOffset
                 \<longrightarrow> unat (0 :: uint64) + 4 \<le> unat nextOffset"
    by (simp add: offs)
  have adv: "\<forall>k nextOffset nextOffset'. nextOffsetOf ?s (serverB k) = Some nextOffset
            \<longrightarrow> nextOffsetOf ?s (serverB (Suc k)) = Some nextOffset'
            \<longrightarrow> unat nextOffset + 4 \<le> unat nextOffset'"
    by (auto simp: offs split: if_splits)
  have src: "Data (file_of ''0123456789'') = Some (bytesReader ''0123456789'')"
    by (simp add: file_of_def)
  have r0: "serverB 0 = Inr \<lparr>StatusCode = 202, Status = ''202 Accepted'',
                              resp_Body = Inr ''{ranges:[4-]}''\<rparr>"
    and r1: "serverB 1 = Inr \<lparr>StatusCode = 202, Status = ''202 Accepted'',
                              resp_Body = Inr ''{ranges:[8-]}''\<rparr>"
    and r2: "2 \<le> k \<Longrightarrow> serverB k = Inr \<lparr>StatusCode = 201, Status = ''201 Created'',
                                          resp_Body = Inr ''{item1}''\<rparr>" for k
    by (simp_all add: serverB_def script_def response_def)
  have d0: "Unmarshal_UploadSession ?s ''{ranges:[4-]}'' = Inr (session_of [''4-''])"
    and d1: "Unmarshal_UploadSession ?s ''{ranges:[8-]}'' = Inr (session_of [''8-''])"
    by (simp_all add: testEnv_def tableUnmarshal_def)
  have e0: "ParseUint (Split ''4-'' (CHR ''-'') ! 1) = Inl (NumError ''ParseUint'' [] ErrSyntax)"
    and e1: "ParseUint (Split ''8-'' (CHR ''-'') ! 1) = Inl (NumError ''ParseUint'' [] ErrSyntax)"
    by (simp_all add: ParseUint_def)
  have ans: "well_formed_answers ?s serverB"
    unfolding well_formed_answers_def
  proof (intro allI impI)
    fix k resp responseBody
    assume a: "serverB k = Inr resp \<and> resp_Body resp = Inr responseBody"
    let ?goal = "(\<forall>session e es. StatusCode resp = 202
             \<and> Unmarshal_UploadSession ?s responseBody = Inr session
             \<and> NextExpectedRanges session = e # es \<longrightarrow>
           CHR ''-'' \<in> set e \<and>
           (\<forall>v. ParseUint (Split e (CHR ''-'') ! 1) = Inr v \<longrightarrow> 0 < v \<and> unat v \<le> maxAlloc ?s)) \<and>
        (StatusCode resp \<noteq> 200 \<and> StatusCode resp \<noteq> 201 \<and> StatusCode resp \<noteq> 202 \<longrightarrow>
           Unmarshal_ErrorResponse ?s responseBody \<noteq> Inr None)"
    consider "k = 0" | "k = 1" | "2 \<le> k" by arith
    then show ?goal
    proof cases
      case 1
      with a r0 have "StatusCode resp = 202" and "responseBody = ''{ranges:[4-]}''" by auto
      then show ?thesis using d0 e0 by (auto simp: session_of_def)
    next
      case 2
      with a r1 have "StatusCode resp = 202" and "responseBody = ''{ranges:[8-]}''" by auto
      then show ?thesis using d1 e1 by (auto simp: session_of_def)
    next
      case 3
      with a r2 [OF 3] have "StatusCode resp = 201" by auto
      then show ?thesis by simp
    qed
  qed
  have buf: "len (zeroed 4) \<le> cap (zeroed 4)" "(0 :: uint64) < 4" "unat (4 :: uint64) \<le> maxAlloc ?s"
    by (simp_all add: zeroed_def cap_def testEnv_def)
  have stack: "length ''0123456789'' \<le> unat (0 :: uint64) + 4 * (maxDepth ?s - Suc 0)"
    by (simp add: testEnv_def)
  show ?thesis
    by (rule upload_returns_when_offsets_advance
          [OF seq first adv src bytesReader_finite_source ans buf stack])
qed

subsection \<open>An empty list of next expected ranges\<close>

text \<open>
  C5. When a chunk was read and sent and the server answers 202 with a session whose
  \<open>NextExpectedRanges\<close> is empty, \<open>uploadChunk\<close> returns the error "next expected
  ranges is empty, ..." and the requests issued are those issued before plus this one
  PUT: no further chunk is sent.
\<close>

theorem empty_next_ranges_fails:
  assumes "readChunk s buffer offset length' file = Inr (buffer', p)"
    and "chunkRequest s sessURL p offset file = Inr uploadReq"
    and "Do s sent uploadReq = Inr resp"
    and "resp_Body resp = Inr responseBody"
    and "StatusCode resp = 202"
    and "Unmarshal_UploadSession s responseBody = Inr session"
    and "NextExpectedRanges session = []"
  shows "uploadChunk s depth sent sessURL buffer offset length' file =
           Some (Return None (Some (ErrorString
             ''next expected ranges is empty, but we didn't receive DriveItem obejct in response'')),
                 sent @ [uploadReq])"
  by (subst uploadChunk.simps) (simp add: chunkStep_def respond_def nextChunk_def assms)

theorem empty_next_ranges_fails_witness:
  "uploadChunk (testEnv (always (response 202 ''202 Accepted'' ''{ranges:[]}''))) 0 []
      ''https://up.example/session'' (zeroed 4) 0 4 (file_of ''0123456789'')
   = Some (Return None (Some (ErrorString
        ''next expected ranges is empty, but we didn't receive DriveItem obejct in response'')),
           [\<lparr>Method = ''PUT'', URL = ''https://up.example/session'',
             Header = [''Content-Length'' \<mapsto> [''4''], ''Content-Range'' \<mapsto> [''bytes 0-3/10'']],
             Body = ''0123''\<rparr>])"
proof -
  let ?s = "testEnv (always (response 202 ''202 Accepted'' ''{ranges:[]}''))"
  let ?req = "\<lparr>Method = ''PUT'', URL = ''https://up.example/session'',
             Header = [''Content-Length'' \<mapsto> [''4''], ''Content-Range'' \<mapsto> [''bytes 0-3/10'']],
             Body = ''0123''\<rparr>"
  let ?resp = "\<lparr>StatusCode = 202, Status = ''202 Accepted'', resp_Body = Inr ''{ranges:[]}''\<rparr>"
  have rd: "readChunk ?s (zeroed 4) 0 4 (file_of ''0123456789'')
              = Inr (\<lparr>arr = ''0123'', len = 4\<rparr>, ''0123'')"
    by (simp add: eval_defs)
  have rq: "chunkRequest ?s ''https://up.example/session'' ''0123'' 0 (file_of ''0123456789'')
              = Inr ?req"
    by (simp add: eval_defs)
  have ans: "Do ?s [] ?req = Inr ?resp"
    by (simp add: eval_defs)
  have body: "resp_Body ?resp = Inr ''{ranges:[]}''" and code: "StatusCode ?resp = 202"
    by simp_all
  have dec: "Unmarshal_UploadSession ?s ''{ranges:[]}'' = Inr (session_of [])"
    by (simp add: eval_defs)
  have emp: "NextExpectedRanges (session_of []) = []"
    by (simp add: session_of_def)
  show ?thesis
    using empty_next_ranges_fails [OF rd rq ans body code dec emp] by simp
qed

subsection \<open>The Content-Range header\<close>

text \<open>
  C6. When the read at \<open>offset\<close> produced \<open>n \<ge> 1\<close> bytes (at most the requested
  \<open>length'\<close>) and the request can be built, the PUT that is issued carries
  \<open>Content-Range: bytes offset-(offset+n-1)/Size\<close>, where \<open>n\<close> is the number of bytes
  read and not the requested length. The end is computed in \<^verbatim>\<open>uint64\<close>, so it is
  \<open>offset + n - 1\<close> reduced modulo \<open>2^64\<close>, and exactly \<open>offset + n - 1\<close> whenever
  the chunk ends within the \<^verbatim>\<open>uint64\<close> range. The witness is the claim's example:
  500000 bytes read of 1048576 requested at offset 0 give \<open>bytes 0-499999/500000\<close>.
\<close>

theorem content_range_uses_bytes_read:
  assumes "sizeBuffer s buffer length' = Inr buffer2"
    and "Data file = Some ReadAt"
    and "ReadAt (len buffer2) (sint offset) = (p, err)"
    and "1 \<le> length p" and "length p \<le> unat length'"
    and "url_Parse s sessURL = None"
  shows "\<exists>req. snd (chunkStep s sent sessURL buffer offset length' file) = sent @ [req] \<and>
           Header req ''Content-Range'' =
             Some [''bytes '' @ Itoa (unat offset) @ ''-''
                     @ Itoa ((unat offset + length p - 1) mod 2 ^ 64) @ ''/''
                     @ Itoa (unat (Size file))] \<and>
           (unat offset + length p \<le> 2 ^ 64 \<longrightarrow>
              Header req ''Content-Range'' =
                Some [''bytes '' @ Itoa (unat offset) @ ''-''
                        @ Itoa (unat offset + length p - 1) @ ''/''
                        @ Itoa (unat (Size file))])"
proof -
  have pos: "0 < length p" using assms(4) by (cases p) simp_all
  have rd: "readChunk s buffer offset length' file
             = Inr ((fill buffer2 p)\<lparr>len := length p\<rparr>, p)"
    by (rule readChunk_bytes [OF assms(1,2,3) pos assms(5)])
  obtain req where rq: "chunkRequest s sessURL p offset file = Inr req"
    and hd: "Header req ''Content-Range'' =
             Some [''bytes '' @ Itoa (unat offset) @ ''-''
                     @ Itoa ((unat offset + length p - 1) mod 2 ^ 64) @ ''/''
                     @ Itoa (unat (Size file))]"
    using assms(6) range_end [OF assms(4), of offset]
    by (simp add: chunkRequest_def NewRequest_def Header_Set_def)
  have "(unat offset + length p - 1) mod 2 ^ 64 = unat offset + length p - 1"
    if "unat offset + length p \<le> 2 ^ 64"
    using that assms(4) by simp
  with chunkStep_sends [OF rd rq] hd show ?thesis by auto
qed

theorem content_range_uses_bytes_read_witness:
  "\<exists>req. snd (chunkStep (testEnv (always (Inl EOF))) [] ''https://up.example/session''
                 (zeroed 1048576) 0 1048576
                 (file_of (replicate 500000 (CHR ''x'')))) = [req] \<and>
          Header req ''Content-Range'' = Some [''bytes 0-499999/500000'']"
proof -
  let ?s = "testEnv (always (Inl EOF))"
  let ?f = "file_of (replicate 500000 (CHR ''x''))"
  let ?p = "replicate 500000 (CHR ''x'')"
  have sz: "sizeBuffer ?s (zeroed 1048576) 1048576 = Inr (zeroed 1048576)"
    by (simp add: eval_defs)
  have dt: "Data ?f = Some (bytesReader ?p)"
    by (simp add: file_of_def)
  have rd: "bytesReader ?p (len (zeroed 1048576)) (sint (0 :: uint64)) = (?p, Some EOF)"
    by (simp add: bytesReader_def zeroed_def)
  have n1: "1 \<le> length ?p" and n2: "length ?p \<le> unat (1048576 :: uint64)"
    by simp_all
  have url: "url_Parse ?s ''https://up.example/session'' = None"
    by (simp add: testEnv_def)
  have sz_f: "unat (Size ?f) = 500000"
    by (simp add: file_of_def)
  obtain req where
    sent: "snd (chunkStep ?s [] ''https://up.example/session''
                 (zeroed 1048576) 0 1048576 ?f) = [] @ [req]"
    and hd: "unat (0 :: uint64) + length ?p \<le> 2 ^ 64 \<longrightarrow>
              Header req ''Content-Range'' =
                Some [''bytes '' @ Itoa (unat (0 :: uint64)) @ ''-''
                        @ Itoa (unat (0 :: uint64) + length ?p - 1) @ ''/''
                        @ Itoa (unat (Size ?f))]"
    using content_range_uses_bytes_read [OF sz dt rd n1 n2 url, of "[]"] by blast
  have "Header req ''Content-Range'' = Some [''bytes 0-499999/500000'']"
    using hd sz_f by (simp add: Itoa_small Itoa_large)
  with sent show ?thesis by auto
qed

subsection \<open>Reads that produce nothing, reads that produce less\<close>

text \<open>
  C7. The read is asked for \<open>length'\<close> bytes (the buffer is cut to that length before
  it). If it produces no byte and \<^verbatim>\<open>io.EOF\<close>, \<open>uploadChunk\<close> returns the error
  "unexpected EOF" and issues no request. If it produces \<open>n > 0\<close> bytes (at most the
  requested length, so also on a short read), the buffer holds them in front of what it
  held before, the cut \<^verbatim>\<open>buffer = buffer[:n]\<close> leaves exactly them, and the PUT that
  is issued has these \<open>n\<close> bytes as its body and \<open>n\<close> as its
  \<^verbatim>\<open>Content-Length\<close>; the buffer handed to the next call is the cut one.
\<close>

theorem zero_read_fails_short_read_sent:
  assumes "sizeBuffer s buffer length' = Inr buffer2"
    and "Data file = Some ReadAt"
  shows "(ReadAt (unat length') (sint offset) = ([], Some EOF) \<longrightarrow>
            uploadChunk s depth sent sessURL buffer offset length' file =
              Some (Return None (Some (ErrorString ''unexpected EOF'')), sent)) \<and>
         (\<forall>p err. ReadAt (unat length') (sint offset) = (p, err) \<and> 0 < length p
              \<and> length p \<le> unat length' \<and> url_Parse s sessURL = None \<longrightarrow>
            (\<exists>req. snd (chunkStep s sent sessURL buffer offset length' file) = sent @ [req]
               \<and> Method req = ''PUT'' \<and> URL req = sessURL \<and> Body req = p
               \<and> Header req ''Content-Length'' = Some [Itoa (length p)]) \<and>
            readChunk s buffer offset length' file
              = Inr (\<lparr>arr = p @ drop (length p) (arr buffer2), len = length p\<rparr>, p))"
proof (intro conjI impI allI)
  from sizeBuffer_len [OF assms(1)] have n: "len buffer2 = unat length'" by simp
  {
    assume "ReadAt (unat length') (sint offset) = ([], Some EOF)"
    with assms n have "readChunk s buffer offset length' file =
        Inl (Return None (Some (ErrorString ''unexpected EOF'')))"
      by (simp add: readChunk_def)
    then show "uploadChunk s depth sent sessURL buffer offset length' file =
        Some (Return None (Some (ErrorString ''unexpected EOF'')), sent)"
      by (subst uploadChunk.simps) (simp add: chunkStep_def)
  }
  fix p err
  assume h: "ReadAt (unat length') (sint offset) = (p, err) \<and> 0 < length p
              \<and> length p \<le> unat length' \<and> url_Parse s sessURL = None"
  with n have rd0: "ReadAt (len buffer2) (sint offset) = (p, err)" by simp
  from h have pos: "0 < length p" and short: "length p \<le> unat length'" by simp_all
  have rd: "readChunk s buffer offset length' file = Inr ((fill buffer2 p)\<lparr>len := length p\<rparr>, p)"
    by (rule readChunk_bytes [OF assms rd0 pos short])
  obtain req where rq: "chunkRequest s sessURL p offset file = Inr req"
    and props: "Method req = ''PUT''" "URL req = sessURL" "Body req = p"
      "Header req ''Content-Length'' = Some [Itoa (length p)]"
    using h by (simp add: chunkRequest_def NewRequest_def Header_Set_def)
  from chunkStep_sends [OF rd rq] props
  show "\<exists>req. snd (chunkStep s sent sessURL buffer offset length' file) = sent @ [req]
               \<and> Method req = ''PUT'' \<and> URL req = sessURL \<and> Body req = p
               \<and> Header req ''Content-Length'' = Some [Itoa (length p)]"
    by blast
  from short n have "(fill buffer2 p)\<lparr>len := length p\<rparr>
      = \<lparr>arr = p @ drop (length p) (arr buffer2), len = length p\<rparr>"
    by (simp add: fill_def min_def)
  with rd show "readChunk s buffer offset length' file
      = Inr (\<lparr>arr = p @ drop (length p) (arr buffer2), len = length p\<rparr>, p)"
    by simp
qed

theorem zero_read_fails_short_read_sent_witness:
  "uploadChunk (testEnv (always (Inl EOF))) 0 [] ''https://up.example/session''
      (zeroed 4) 10 4 (file_of ''0123456789'')
     = Some (Return None (Some (ErrorString ''unexpected EOF'')), []) \<and>
   (\<exists>req. snd (chunkStep (testEnv (always (Inl EOF))) [] ''https://up.example/session''
                  (zeroed 4) 8 4 (file_of ''0123456789'')) = [req]
      \<and> Method req = ''PUT'' \<and> URL req = ''https://up.example/session'' \<and> Body req = ''89''
      \<and> Header req ''Content-Length'' = Some [''2'']) \<and>
   readChunk (testEnv (always (Inl EOF))) (zeroed 4) 8 4 (file_of ''0123456789'')
     = Inr (\<lparr>arr = ''89'' @ replicate 2 (CHR 0x00), len = 2\<rparr>, ''89'')"
proof -
  let ?s = "testEnv (always (Inl EOF))"
  let ?f = "file_of ''0123456789''"
  let ?url = "''https://up.example/session''"
  have sz: "sizeBuffer ?s (zeroed 4) 4 = Inr (zeroed 4)"
    by (simp add: eval_defs)
  have dt: "Data ?f = Some (bytesReader ''0123456789'')"
    by (simp add: file_of_def)
  have eof: "bytesReader ''0123456789'' (unat (4 :: uint64)) (sint (10 :: uint64)) = ([], Some EOF)"
    by (simp add: bytesReader_def)
  have short: "bytesReader ''0123456789'' (unat (4 :: uint64)) (sint (8 :: uint64)) = (''89'', Some EOF)
       \<and> 0 < length ''89'' \<and> length ''89'' \<le> unat (4 :: uint64)
       \<and> url_Parse ?s ?url = None"
    by (simp add: bytesReader_def testEnv_def)
  note at10 = zero_read_fails_short_read_sent
    [OF sz dt, where offset = 10 and depth = 0 and sent = "[]" and sessURL = ?url]
  note at8 = zero_read_fails_short_read_sent
    [OF sz dt, where offset = 8 and depth = 0 and sent = "[]" and sessURL = ?url]
  from at10 eof
  have a: "uploadChunk ?s 0 [] ?url (zeroed 4) 10 4 ?f
     = Some (Return None (Some (ErrorString ''unexpected EOF'')), [])"
    by blast
  from at8 [THEN conjunct2, THEN spec, THEN spec, THEN mp, OF short]
  have b: "(\<exists>req. snd (chunkStep ?s [] ?url (zeroed 4) 8 4 ?f) = [] @ [req]
      \<and> Method req = ''PUT'' \<and> URL req = ?url \<and> Body req = ''89''
      \<and> Header req ''Content-Length'' = Some [Itoa (length ''89'')]) \<and>
     readChunk ?s (zeroed 4) 8 4 ?f
       = Inr (\<lparr>arr = ''89'' @ drop (length ''89'') (arr (zeroed 4)), len = length ''89''\<rparr>, ''89'')" .
  from b have b1: "\<exists>req. snd (chunkStep ?s [] ?url (zeroed 4) 8 4 ?f) = [req]
      \<and> Method req = ''PUT'' \<and> URL req = ?url \<and> Body req = ''89''
      \<and> Header req ''Content-Length'' = Some [''2'']"
    by (simp add: Itoa_small)
  from b have b2: "readChunk ?s (zeroed 4) 8 4 ?f
       = Inr (\<lparr>arr = ''89'' @ replicate 2 (CHR 0x00), len = 2\<rparr>, ''89'')"
    by (simp add: zeroed_def)
  from a b1 b2 show ?thesis by (intro conjI)
qed

subsection \<open>Validation of the arguments\<close>

text \<open>
  C8. When the destination folder id is empty, the file name is empty, the file size is
  zero or the data source is nil, \<open>UploadLargeFile\<close> returns one of its four
  validation errors and the list of issued requests is unchanged: nothing was sent.
\<close>

theorem invalid_input_rejected:
  assumes "destinationParentFolderId = [] \<or> Name file = [] \<or> Size file = 0 \<or> Data file = None"
  shows "\<exists>msg \<in> {''Please provide the destination, i.e. the ID of the parent folder for this new item.'',
                   ''Please provide the file name.'',
                   ''Please provide the file size.'',
                   ''Please provide the file reader.''}.
           UploadLargeFile s sent destinationParentFolderId file opts =
             Some (Return None (Some (ErrorString msg)), sent)"
  using assms by (auto simp: UploadLargeFile_def)

theorem invalid_input_rejected_witness:
  "UploadLargeFile (testEnv (always (Inl EOF))) [] ''folder''
      \<lparr>Name = ''a.bin'', Size = 0, Data = Some (bytesReader [])\<rparr>
      \<lparr>DriveID = [], ConflictBehavior = [], ChunkSize = 0\<rparr>
     = Some (Return None (Some (ErrorString ''Please provide the file size.'')), [])"
proof -
  let ?f = "\<lparr>Name = ''a.bin'', Size = 0, Data = Some (bytesReader [])\<rparr>"
  have h: "''folder'' = [] \<or> Name ?f = [] \<or> Size ?f = 0 \<or> Data ?f = None"
    by simp
  from invalid_input_rejected [OF h, of "testEnv (always (Inl EOF))" "[]"
      "\<lparr>DriveID = [], ConflictBehavior = [], ChunkSize = 0\<rparr>"]
  show ?thesis by (auto simp: UploadLargeFile_def)
qed

subsection \<open>Cancellation of the session\<close>

text \<open>
  C9. Once the session has been created, whenever the upload of the chunks comes to an
  end with an outcome \<open>out\<close> (a drive item, an error, a panic), \<open>UploadLargeFile\<close>
  ends with that same outcome, and the last request it issued is a DELETE to the upload
  URL of the session (unless that request cannot even be built, which is one of the
  failures the cancellation swallows). The outcome does not depend on how the
  cancellation fares: the theorem holds for every transport \<open>D\<close> that answered the
  requests of the upload as \<open>Do s\<close> did, whatever \<open>D\<close> answers to the DELETE. In the
  witness the DELETE fails once with a broken connection and once with status 500, and
  the upload returns its drive item both times.
\<close>

theorem session_cancelled_on_exit:
  assumes "destinationParentFolderId \<noteq> []" and "Name file \<noteq> []"
    and "Size file \<noteq> 0" and "Data file \<noteq> None"
    and "BaseURL_Parse s (sessionURL s destinationParentFolderId file opts) = Inr apiUrl"
    and "NewRequest s ''POST'' apiUrl [] = Inr req0"
    and "ClientDo s sent (Header_Set req0 ''Content-Type'' ''application/json'') = Inr session"
    and "startUpload s (sent @ [Header_Set req0 ''Content-Type'' ''application/json'']) session file opts
           = Some (out, sent')"
  shows "\<forall>D. (\<forall>h. length h < length sent' \<longrightarrow> D h = Do s h) \<longrightarrow>
           UploadLargeFile (s\<lparr>Do := D\<rparr>) sent destinationParentFolderId file opts =
             Some (out,
                   if url_Parse s (UploadUrl session) = None
                   then sent' @ [\<lparr>Method = ''DELETE'', URL = UploadUrl session,
                                  Header = Map.empty, Body = []\<rparr>]
                   else sent')"
proof (intro allI impI)
  fix D
  assume agree: "\<forall>h. length h < length sent' \<longrightarrow> D h = Do s h"
  let ?s = "s\<lparr>Do := D\<rparr>"
  let ?post = "Header_Set req0 ''Content-Type'' ''application/json''"
  have url: "BaseURL_Parse ?s (sessionURL ?s destinationParentFolderId file opts) = Inr apiUrl"
    using assms(5) by (simp add: sessionURL_Do)
  have req: "NewRequest ?s ''POST'' apiUrl [] = Inr req0"
    using assms(6) by (simp add: NewRequest_def)
  have sess: "ClientDo ?s sent ?post = Inr session"
    using assms(7) by simp
  have run: "startUpload ?s (sent @ [?post]) session file opts = Some (out, sent')"
    by (rule startUpload_Do [OF assms(8) agree])
  have cancel: "cancelSession ?s sent' session =
      (if url_Parse s (UploadUrl session) = None
       then sent' @ [\<lparr>Method = ''DELETE'', URL = UploadUrl session, Header = Map.empty, Body = []\<rparr>]
       else sent')"
    by (simp add: cancelSession_def NewRequest_def split: sum.splits option.splits)
  from assms(1-4) url req sess run cancel
  show "UploadLargeFile ?s sent destinationParentFolderId file opts =
             Some (out,
                   if url_Parse s (UploadUrl session) = None
                   then sent' @ [\<lparr>Method = ''DELETE'', URL = UploadUrl session,
                                  Header = Map.empty, Body = []\<rparr>]
                   else sent')"
    by (auto simp add: UploadLargeFile_def Let_def)
qed

theorem session_cancelled_on_exit_witness:
  "\<exists>sent'. UploadLargeFile (testEnv serverA) [] ''folder'' (file_of ''0123456789'')
               \<lparr>DriveID = [], ConflictBehavior = [], ChunkSize = 4\<rparr>
             = Some (Return (Some item1) None, sent') \<and>
           UploadLargeFile (testEnv serverA') [] ''folder'' (file_of ''0123456789'')
               \<lparr>DriveID = [], ConflictBehavior = [], ChunkSize = 4\<rparr>
             = Some (Return (Some item1) None, sent') \<and>
           map Method sent' = [''POST'', ''PUT'', ''PUT'', ''PUT'', ''DELETE''] \<and>
           URL (last sent') = ''https://up.example/session'' \<and>
           Do (testEnv serverA) (butlast sent') (last sent') = Inl (Foreign ''connection reset by peer'') \<and>
           Do (testEnv serverA') (butlast sent') (last sent')
             = response 500 ''500 Internal Server Error'' ''{}''"
proof -
  let ?s = "testEnv serverA"
  let ?f = "file_of ''0123456789''"
  let ?opts = "\<lparr>DriveID = [], ConflictBehavior = [], ChunkSize = 4\<rparr>"
  let ?api = "''https://graph.microsoft.com/v1.0/me/drive/items/folder:/a.bin:/createUploadSession''"
  let ?req0 = "\<lparr>Method = ''POST'', URL = ?api, Header = Map.empty, Body = []\<rparr>"
  let ?post = "Header_Set ?req0 ''Content-Type'' ''application/json''"
  let ?del = "\<lparr>Method = ''DELETE'', URL = ''https://up.example/session'',
                Header = Map.empty, Body = []\<rparr>"
  have v: "''folder'' \<noteq> []" "Name ?f \<noteq> []" "Size ?f \<noteq> 0" "Data ?f \<noteq> None"
    by (simp_all add: file_of_def)
  have u: "BaseURL_Parse ?s (sessionURL ?s ''folder'' ?f ?opts) = Inr ?api"
    by (simp add: testEnv_def sessionURL_def file_of_def)
  have r: "NewRequest ?s ''POST'' ?api [] = Inr ?req0"
    by (simp add: NewRequest_def testEnv_def)
  have c: "ClientDo ?s [] ?post = Inr (session_of [])"
    by (simp add: testEnv_def)
  from three_chunks [of ?post] obtain sent1 where
    all: "uploadChunk ?s 0 [?post] ''https://up.example/session''
        (zeroed 4) 0 4 ?f = Some (Return (Some item1) None, sent1)
      \<and> map Method sent1 = [Method ?post, ''PUT'', ''PUT'', ''PUT'']
      \<and> map Body sent1 = [Body ?post, ''0123'', ''4567'', ''89'']
      \<and> map (\<lambda>r. Header r ''Content-Range'') (tl sent1)
           = [Some [''bytes 0-3/10''], Some [''bytes 4-7/10''], Some [''bytes 8-9/10'']]" ..
  from all have run: "uploadChunk ?s 0 [?post] ''https://up.example/session''
        (zeroed 4) 0 4 ?f = Some (Return (Some item1) None, sent1)"
    by (rule conjunct1)
  from all have ms: "map Method sent1 = [Method ?post, ''PUT'', ''PUT'', ''PUT'']"
    by (rule conjunct2 [THEN conjunct1])
  have st: "startUpload ?s ([] @ [?post]) (session_of []) ?f ?opts = Some (Return (Some item1) None, sent1)"
    using run by (simp add: startUpload_def make_def testEnv_def session_of_def)
  have "length (map Method sent1) = 4" by (simp only: ms) simp
  then have len: "length sent1 = 4" by simp
  note cancelled = session_cancelled_on_exit [OF v u r c st, THEN spec, THEN mp]
  have same: "\<forall>h. length h < length sent1 \<longrightarrow> Do ?s h = Do ?s h"
    by simp
  have other: "\<forall>h. length h < length sent1 \<longrightarrow> Do (testEnv serverA') h = Do ?s h"
    by (simp add: len testEnv_def serverA_def serverA'_def script_def)
  have e1: "?s\<lparr>Do := Do ?s\<rparr> = ?s" by simp
  have e2: "?s\<lparr>Do := Do (testEnv serverA')\<rparr> = testEnv serverA'"
    by (simp add: testEnv_def)
  have res1: "UploadLargeFile ?s [] ''folder'' ?f ?opts =
      Some (Return (Some item1) None, sent1 @ [?del])"
    using cancelled [OF same] by (simp add: e1) (simp add: testEnv_def session_of_def)
  have res2: "UploadLargeFile (testEnv serverA') [] ''folder'' ?f ?opts =
      Some (Return (Some item1) None, sent1 @ [?del])"
    using cancelled [OF other] by (simp add: e2) (simp add: testEnv_def session_of_def)
  have obs: "map Method (sent1 @ [?del]) = [''POST'', ''PUT'', ''PUT'', ''PUT'', ''DELETE'']"
    "URL (last (sent1 @ [?del])) = ''https://up.example/session''"
    "Do ?s (butlast (sent1 @ [?del])) (last (sent1 @ [?del])) = Inl (Foreign ''connection reset by peer'')"
    "Do (testEnv serverA') (butlast (sent1 @ [?del])) (last (sent1 @ [?del]))
       = response 500 ''500 Internal Server Error'' ''{}''"
    using ms len by (simp_all add: testEnv_def serverA_def serverA'_def script_def Header_Set_def)
  show ?thesis
    by (rule exI [where x = "sent1 @ [?del]"], intro conjI) (rule res1 res2 obs)+
qed



end
